theory Spec2Isabelle
  imports Main
begin

section \<open>Strings and errors\<close>

text \<open>
  A Python \<open>str\<close> is modelled as a \<open>string\<close>, one \<open>char\<close> per code point; the model
  covers the code points below 256. The exceptions the program can raise are values of
  \<open>py_error\<close>: a function that can raise returns \<open>py_error + 'a\<close>, with \<open>Inl\<close> for the
  exception.
\<close>

datatype py_error = IndexError | ValueError | AttributeError | ParserError

text \<open>\<open>str.isspace\<close> on the code points below 256.\<close>

definition isspace :: "char \<Rightarrow> bool" where
  "isspace c = (of_char c \<in> {9, 10, 11, 12, 13, 28, 29, 30, 31, 32, 133, 160 :: nat})"

text \<open>\<open>str.strip()\<close>: white space is dropped at both ends.\<close>

definition py_strip :: "string \<Rightarrow> string" where
  "py_strip s = rev (dropWhile isspace (rev (dropWhile isspace s)))"

section \<open>The stream index: \<open>_extract_index\<close> and \<open>_pairwise\<close>\<close>

text \<open>
  \<open>int(s)\<close> on a string: white space around the number is ignored, one sign may come
  first, and the decimal digits may be grouped by single underscores. Everything else
  raises \<open>ValueError\<close>, and so does a number of more than 4300 digits (the limit of the
  interpreter, as it is set when the interpreter starts). The white space of \<open>int\<close> is
  narrower than that of \<open>str.strip\<close>: the separators U+001C to U+001F are not part of it.
\<close>

definition int_space :: "char \<Rightarrow> bool" where
  "int_space c = (of_char c \<in> {9, 10, 11, 12, 13, 32, 133, 160 :: nat})"

definition int_max_str_digits :: nat where
  "int_max_str_digits = 4300"

definition digit_of :: "char \<Rightarrow> nat option" where
  "digit_of c = (if c \<in> set ''0123456789'' then Some (of_char c - 48) else None)"

fun py_digits :: "nat \<Rightarrow> string \<Rightarrow> nat option" where
  "py_digits acc [] = Some acc"
| "py_digits acc [c] = (case digit_of c of None \<Rightarrow> None | Some v \<Rightarrow> Some (10 * acc + v))"
| "py_digits acc (c # d # ds) =
     (if c = CHR ''_''
      then (case digit_of d of None \<Rightarrow> None | Some v \<Rightarrow> py_digits (10 * acc + v) ds)
      else (case digit_of c of None \<Rightarrow> None | Some v \<Rightarrow> py_digits (10 * acc + v) (d # ds)))"

definition py_unsigned :: "string \<Rightarrow> nat option" where
  "py_unsigned s =
     (case s of [] \<Rightarrow> None
      | c # cs \<Rightarrow> (case digit_of c of None \<Rightarrow> None | Some v \<Rightarrow> py_digits v cs))"

definition py_int :: "string \<Rightarrow> py_error + int" where
  "py_int s =
     (let t = rev (dropWhile int_space (rev (dropWhile int_space s)));
          neg = (t \<noteq> [] \<and> hd t = CHR ''-'');
          body = (if t \<noteq> [] \<and> hd t \<in> set ''+-'' then tl t else t)
      in if int_max_str_digits < length (filter (\<lambda>c. c \<noteq> CHR ''_'') body) then Inl ValueError
         else case py_unsigned body of
                None \<Rightarrow> Inl ValueError
              | Some n \<Rightarrow> Inr (if neg then - int n else int n))"

text \<open>
  The index file reaches \<open>_extract_index\<close> as the rows \<open>csv.reader\<close> produces, each a
  list of fields. \<open>int(row[0])\<close> raises \<open>IndexError\<close> on a row without fields (a blank
  line) and \<open>ValueError\<close> on a first field that is not a number; the first row that
  raises ends the comprehension.
\<close>

fun row_offsets :: "string list list \<Rightarrow> py_error + int list" where
  "row_offsets [] = Inr []"
| "row_offsets (row # rows) =
     (case row of
        [] \<Rightarrow> Inl IndexError
      | field # _ \<Rightarrow>
          (case py_int field of
             Inl e \<Rightarrow> Inl e
           | Inr n \<Rightarrow> (case row_offsets rows of Inl e \<Rightarrow> Inl e | Inr ns \<Rightarrow> Inr (n # ns))))"

text \<open>\<open>sorted({int(row[0]) for row in ...})\<close>: the set of the offsets, in ascending order.\<close>

definition extract_index :: "string list list \<Rightarrow> py_error + int list" where
  "extract_index rows =
     (case row_offsets rows of
        Inl e \<Rightarrow> Inl e
      | Inr ns \<Rightarrow> Inr (sorted_list_of_set (set ns)))"

text \<open>\<open>itertools.zip_longest\<close> with the fill value \<open>None\<close>.\<close>

fun zip_longest :: "'a list \<Rightarrow> 'b list \<Rightarrow> ('a option \<times> 'b option) list" where
  "zip_longest [] [] = []"
| "zip_longest (x # xs) [] = (Some x, None) # zip_longest xs []"
| "zip_longest [] (y # ys) = (None, Some y) # zip_longest [] ys"
| "zip_longest (x # xs) (y # ys) = (Some x, Some y) # zip_longest xs ys"

text \<open>
  \<open>_pairwise\<close>: two iterators over the index, the second advanced by one element
  (\<open>next(ends, None)\<close> does nothing on an empty index), zipped to the longer one.
\<close>

definition pairwise_py :: "'a list \<Rightarrow> ('a option \<times> 'a option) list" where
  "pairwise_py index = zip_longest index (case index of [] \<Rightarrow> [] | _ # ends \<Rightarrow> ends)"

text \<open>The ranges of an index file: \<open>_pairwise(_extract_index(filepath))\<close>.\<close>

definition build_index :: "string list list \<Rightarrow> py_error + (int option \<times> int option) list" where
  "build_index rows =
     (case extract_index rows of Inl e \<Rightarrow> Inl e | Inr index \<Rightarrow> Inr (pairwise_py index))"

section \<open>Articles of one stream: \<open>_extract_content\<close>\<close>

text \<open>
  The decompressed stream, wrapped in a \<open>mediawiki\<close> root, goes through
  \<open>etree.iterparse\<close>. The model starts from the tree the XML parser builds: an element
  has a tag, a text (\<open>None\<close> when the element has no character data) and its child
  elements. Attributes and tails are never read by the program and are left out.
\<close>

datatype element = Element (tag: string) (etext: "string option") (children: "element list")

text \<open>\<open>s.endswith(suffix)\<close>.\<close>

definition endswith :: "string \<Rightarrow> string \<Rightarrow> bool" where
  "endswith s suffix = (length suffix \<le> length s \<and> drop (length s - length suffix) s = suffix)"

text \<open>
  \<open>elem.find("./name")\<close> is the first child with that tag, and
  \<open>elem.find("./name1/name2")\<close> the first child tagged \<open>name2\<close> of a child tagged
  \<open>name1\<close>, in document order; both are \<open>None\<close> when there is none.
\<close>

definition find_child :: "string \<Rightarrow> element \<Rightarrow> element option" where
  "find_child name elem = find (\<lambda>c. tag c = name) (children elem)"

definition find_grandchild :: "string \<Rightarrow> string \<Rightarrow> element \<Rightarrow> element option" where
  "find_grandchild name1 name2 elem =
     (case concat (map (\<lambda>c. filter (\<lambda>g. tag g = name2) (children c))
                    (filter (\<lambda>c. tag c = name1) (children elem))) of
        [] \<Rightarrow> None
      | g # _ \<Rightarrow> Some g)"

text \<open>\<open>found.text\<close>, which raises \<open>AttributeError\<close> when \<open>find\<close> returned \<open>None\<close>.\<close>

definition text_of :: "element option \<Rightarrow> py_error + string option" where
  "text_of found = (case found of None \<Rightarrow> Inl AttributeError | Some e \<Rightarrow> Inr (etext e))"

text \<open>\<open>elem.clear()\<close> drops the text and the children of the element and keeps its tag.\<close>

definition clear :: "element \<Rightarrow> element" where
  "clear elem = Element (tag elem) None []"

text \<open>
  The generator yields \<open>(id_, title, raw_content)\<close>. The id and the title are texts
  of elements and can be \<open>None\<close>; the raw content has passed the test
  \<open>raw_content is None\<close>.
\<close>

type_synonym raw_article = "string option \<times> string option \<times> string"

text \<open>
  One pass through the body of the \<open>for\<close> loop, on the element of an end event: the
  element as the pass leaves it, and whether the pass went on to the next event, yielded
  an article or raised.
\<close>

datatype outcome = Continue | Yield raw_article | Raise py_error

definition loop_body :: "element \<Rightarrow> element \<times> outcome" where
  "loop_body elem =
     (if \<not> endswith (tag elem) ''page'' then (elem, Continue)
      else
        let namespace = take (length (tag elem) - 4) (tag elem) in
        case text_of (find_child (namespace @ ''ns'') elem) of
          Inl e \<Rightarrow> (elem, Raise e)
        | Inr ns \<Rightarrow>
            let redirect = find_child (namespace @ ''redirect'') elem in
            if ns \<noteq> Some ''0'' \<or> redirect \<noteq> None then (clear elem, Continue)
            else
              case text_of (find_child (namespace @ ''id'') elem) of
                Inl e \<Rightarrow> (elem, Raise e)
              | Inr id_ \<Rightarrow>
                  (case text_of (find_child (namespace @ ''title'') elem) of
                     Inl e \<Rightarrow> (elem, Raise e)
                   | Inr title \<Rightarrow>
                       (case text_of (find_grandchild (namespace @ ''revision'')
                                        (namespace @ ''text'') elem) of
                          Inl e \<Rightarrow> (elem, Raise e)
                        | Inr raw_content \<Rightarrow>
                            (case raw_content of
                               None \<Rightarrow> (clear elem, Continue)
                             | Some raw \<Rightarrow> (clear elem, Yield (id_, title, raw))))))"

text \<open>
  \<open>iterparse\<close> reports the end of every element, children before their parent, so the
  loop sees an element after all elements inside it, with whatever an earlier pass
  cleared. The result is the tree as the loop leaves it, the articles yielded in order,
  and the exception that ended the generator, if any.
\<close>

fun iterparse :: "element \<Rightarrow> element \<times> raw_article list \<times> py_error option"
  and iterparse_list :: "element list \<Rightarrow> element list \<times> raw_article list \<times> py_error option"
where
  "iterparse (Element t x cs) =
     (case iterparse_list cs of
        (cs', ys, Some e) \<Rightarrow> (Element t x cs', ys, Some e)
      | (cs', ys, None) \<Rightarrow>
          (case loop_body (Element t x cs') of
             (elem', Continue) \<Rightarrow> (elem', ys, None)
           | (elem', Yield y) \<Rightarrow> (elem', ys @ [y], None)
           | (elem', Raise e) \<Rightarrow> (elem', ys, Some e)))"
| "iterparse_list [] = ([], [], None)"
| "iterparse_list (c # cs) =
     (case iterparse c of
        (c', ys, Some e) \<Rightarrow> (c' # cs, ys, Some e)
      | (c', ys, None) \<Rightarrow>
          (case iterparse_list cs of (cs', ys', err) \<Rightarrow> (c' # cs', ys @ ys', err)))"

text \<open>
  \<open>_extract_content\<close> on a stream, given as the elements at the top of the decompressed
  text: the articles it yields and the exception it ends with, if any.
\<close>

definition extract_content :: "element list \<Rightarrow> raw_article list \<times> py_error option" where
  "extract_content stream = snd (iterparse (Element ''mediawiki'' None stream))"

text \<open>The elements of a tree, and the elements the loop treats as pages.\<close>

fun elements :: "element \<Rightarrow> element list" where
  "elements (Element t x cs) = Element t x cs # concat (map elements cs)"

definition is_page :: "element \<Rightarrow> bool" where
  "is_page elem = endswith (tag elem) ''page''"

text \<open>
  A page outside the main namespace or with a redirect marker: it has an \<open>ns\<close> field,
  and the field is not \<open>"0"\<close> or a \<open>redirect\<close> child is present.
\<close>

definition skipped_page :: "element \<Rightarrow> bool" where
  "skipped_page p =
     (let namespace = take (length (tag p) - 4) (tag p)
      in case find_child (namespace @ ''ns'') p of
           None \<Rightarrow> False
         | Some n \<Rightarrow> etext n \<noteq> Some ''0'' \<or> find_child (namespace @ ''redirect'') p \<noteq> None)"

text \<open>
  The XML parser sets the text of an element only when character data arrives for it:
  the text of an element of a parsed tree is \<open>None\<close> or a non-empty string.
\<close>

fun text_filled :: "element \<Rightarrow> bool" where
  "text_filled (Element t x cs) = (x \<noteq> Some [] \<and> (\<forall>c \<in> set cs. text_filled c))"

text \<open>A page element of the dump's schema, for the examples.\<close>

definition page :: "string \<Rightarrow> bool \<Rightarrow> string \<Rightarrow> string \<Rightarrow> string option \<Rightarrow> element" where
  "page ns redirect ident title content =
     Element ''page'' None
       ([Element ''title'' (Some title) [], Element ''ns'' (Some ns) [],
         Element ''id'' (Some ident) []]
        @ (if redirect then [Element ''redirect'' None []] else [])
        @ [Element ''revision'' None
             [Element ''id'' (Some ''99'') [], Element ''text'' content []]])"

text \<open>
  What a pass of the loop keeps of an element: its tag, and its text unless the element
  is a page.
\<close>

definition same_shape :: "element \<Rightarrow> element \<Rightarrow> bool" where
  "same_shape e e' = (tag e' = tag e \<and> (\<not> is_page e \<longrightarrow> etext e' = etext e))"

section \<open>The article URL: \<open>_construct_url\<close>\<close>

text \<open>
  \<open>quote(title)\<close> encodes the title as UTF-8 and writes every byte that is not a
  letter, a digit, one of \<open>_.-~\<close> or the default safe character \<open>/\<close> as a percent sign
  and two upper-case hexadecimal digits. A code point below 128 is one byte, a code point
  from 128 to 255 two bytes.
\<close>

definition utf8 :: "char \<Rightarrow> string" where
  "utf8 c =
     (let n = of_char c :: nat
      in if n < 128 then [c] else [char_of (192 + n div 64), char_of (128 + n mod 64)])"

definition encode_utf8 :: "string \<Rightarrow> string" where
  "encode_utf8 s = concat (map utf8 s)"

definition always_safe :: string where
  "always_safe = ''ABCDEFGHIJKLMNOPQRSTUVWXYZabcdefghijklmnopqrstuvwxyz0123456789_.-~''"

definition hex_upper :: "nat \<Rightarrow> char" where
  "hex_upper n = ''0123456789ABCDEF'' ! n"

definition quote_byte :: "string \<Rightarrow> char \<Rightarrow> string" where
  "quote_byte safe b =
     (if b \<in> set (always_safe @ safe) then [b]
      else [CHR ''%'', hex_upper (of_char b div 16), hex_upper (of_char b mod 16)])"

definition quote_from_bytes :: "string \<Rightarrow> string \<Rightarrow> string" where
  "quote_from_bytes bs safe = concat (map (quote_byte safe) bs)"

definition quote :: "string \<Rightarrow> string" where
  "quote s = quote_from_bytes (encode_utf8 s) ''/''"

text \<open>The f-string of \<open>_construct_url\<close>.\<close>

definition construct_url :: "string \<Rightarrow> string \<Rightarrow> string" where
  "construct_url title language = ''https://'' @ language @ ''.wikisource.org/wiki/'' @ quote title"

text \<open>
  Percent-decoding, as \<open>urllib.parse.unquote\<close> does it: a percent sign followed by two
  hexadecimal digits (of either case) is one byte, any other percent sign stays, and the
  bytes are read as UTF-8. \<open>decode_utf8\<close> is \<open>None\<close> on bytes that are not the encoding of
  a string of the model.
\<close>

definition hex_value :: "char \<Rightarrow> nat option" where
  "hex_value c =
     (if c \<in> set ''0123456789'' then Some (of_char c - 48)
      else if c \<in> set ''ABCDEF'' then Some (of_char c - 55)
      else if c \<in> set ''abcdef'' then Some (of_char c - 87)
      else None)"

fun unquote_to_bytes :: "string \<Rightarrow> string" where
  "unquote_to_bytes (c # a # b # s) =
     (if c = CHR ''%''
      then (case (hex_value a, hex_value b) of
              (Some h, Some l) \<Rightarrow> char_of (16 * h + l) # unquote_to_bytes s
            | _ \<Rightarrow> c # unquote_to_bytes (a # b # s))
      else c # unquote_to_bytes (a # b # s))"
| "unquote_to_bytes s = s"

fun decode_utf8 :: "string \<Rightarrow> string option" where
  "decode_utf8 [] = Some []"
| "decode_utf8 (b # bs) =
     (if (of_char b :: nat) < 128 then map_option ((#) b) (decode_utf8 bs)
      else (case bs of
              [] \<Rightarrow> None
            | b2 # rest \<Rightarrow>
                if (of_char b :: nat) \<in> {194, 195} \<and> 128 \<le> (of_char b2 :: nat) \<and> (of_char b2 :: nat) < 192
                then map_option ((#) (char_of ((of_char b - 192) * 64 + (of_char b2 - 128) :: nat)))
                       (decode_utf8 rest)
                else None))"

definition unquote :: "string \<Rightarrow> string option" where
  "unquote s = decode_utf8 (unquote_to_bytes s)"

text \<open>The final path segment of a URL: what follows its last slash.\<close>

definition last_segment :: "string \<Rightarrow> string" where
  "last_segment url = rev (takeWhile (\<lambda>c. c \<noteq> CHR ''/'') (rev url))"

section \<open>Wikicode: the parsed markup\<close>

text \<open>
  \<open>parser.parse\<close> turns the markup into Wikicode: a list of nodes, which hold further
  Wikicode. The parser is a parameter of \<open>_parse_and_clean_wikicode\<close> and of the model;
  everything after it works on the tree. A node carries what the cleaner reads of it:

  \<^item> \<open>Text value\<close>;
  \<^item> \<open>Template source\<close> and \<open>Comment source\<close>, the node as markup: nothing of a template
    or a comment is printed by \<open>strip_code\<close>, so what the loops do inside a template
    never reaches the cleaned text;
  \<^item> \<open>HTMLEntity body shown\<close>, what stands between \<open>&\<close> and \<open>;\<close> in the markup, and
    the character the entity stands for;
  \<^item> \<open>Argument name default\<close>;
  \<^item> \<open>ExternalLink url title suppress_space\<close>, a link in brackets, and \<open>FreeLink url\<close>,
    a bare URL in the text (an external link whose \<open>brackets\<close> is false; it has no title);
  \<^item> \<open>Heading level title\<close>;
  \<^item> \<open>Tag name visible opening contents closing\<close>: \<open>str(tag)\<close>, the library's
    \<open>is_visible(tag)\<close>, the markup before the contents (attributes included), the
    contents, and the markup after them;
  \<^item> \<open>Wikilink title text\<close>, the text being \<open>None\<close> for a link without a pipe.

  The loops of the program also run through the name and the parameters of a template
  and through the name and the attributes of a tag. Nothing of these is printed by
  \<open>strip_code\<close>, and the model does not enter them: it covers the pages on which the
  library raises no exception at a category link in such a place.
\<close>

datatype node =
    Text string
  | Template string
  | Comment string
  | HTMLEntity string char
  | Argument "node list" "node list option"
  | ExternalLink "node list" "node list option" bool
  | FreeLink "node list"
  | Heading nat "node list"
  | Tag string bool string "node list" string
  | Wikilink "node list" "node list option"

type_synonym wikicode = "node list"

text \<open>\<open>str(node)\<close> and \<open>str(wikicode)\<close>: the markup of a node and of a list of nodes.\<close>

fun str_node :: "node \<Rightarrow> string" and str_code :: "node list \<Rightarrow> string" where
  "str_node (Text s) = s"
| "str_node (Template source) = source"
| "str_node (Comment source) = source"
| "str_node (HTMLEntity body shown) = ''&'' @ body @ '';''"
| "str_node (Argument name dflt) =
     ''{{{'' @ str_code name @ (case dflt of None \<Rightarrow> [] | Some d \<Rightarrow> ''|'' @ str_code d) @ ''}}}''"
| "str_node (ExternalLink url title suppress_space) =
     ''['' @ str_code url
     @ (case title of None \<Rightarrow> []
        | Some t \<Rightarrow> (if suppress_space then [] else '' '') @ str_code t)
     @ '']''"
| "str_node (FreeLink url) = str_code url"
| "str_node (Heading level title) =
     replicate level CHR ''='' @ str_code title @ replicate level CHR ''=''"
| "str_node (Tag name visible opening contents closing) = opening @ str_code contents @ closing"
| "str_node (Wikilink title shown) =
     ''[['' @ str_code title @ (case shown of None \<Rightarrow> [] | Some t \<Rightarrow> ''|'' @ str_code t) @ '']]''"
| "str_code [] = []"
| "str_code (n # ns) = str_node n @ str_code ns"

subsection \<open>\<open>strip_code\<close>\<close>

text \<open>
  With its default arguments, \<open>strip_code\<close> joins what \<open>__strip__\<close> returns for each
  node, leaving out a node for which it returns \<open>None\<close> or the empty string, strips
  newlines from both ends and then replaces three newlines in a row by two for as long
  as there are three in a row.
\<close>

definition strip_newlines :: "string \<Rightarrow> string" where
  "strip_newlines s =
     rev (dropWhile (\<lambda>c. c = CHR 0x0A) (rev (dropWhile (\<lambda>c. c = CHR 0x0A) s)))"

fun has_blank_run :: "string \<Rightarrow> bool" where
  "has_blank_run (a # b # c # s) =
     ((a = CHR 0x0A \<and> b = CHR 0x0A \<and> c = CHR 0x0A) \<or> has_blank_run (b # c # s))"
| "has_blank_run s = False"

fun replace_blank_run :: "string \<Rightarrow> string" where
  "replace_blank_run (a # b # c # s) =
     (if a = CHR 0x0A \<and> b = CHR 0x0A \<and> c = CHR 0x0A
      then CHR 0x0A # CHR 0x0A # replace_blank_run s
      else a # replace_blank_run (b # c # s))"
| "replace_blank_run s = s"

lemma replace_blank_run_length: "length (replace_blank_run s) \<le> length s"
  by (induction s rule: replace_blank_run.induct) auto

lemma replace_blank_run_shorter: "has_blank_run s \<Longrightarrow> length (replace_blank_run s) < length s"
proof (induction s rule: replace_blank_run.induct)
  case (1 a b c s)
  then show ?case
    using replace_blank_run_length [of s] by (auto simp: less_Suc_eq_le)
qed auto

function collapse :: "string \<Rightarrow> string" where
  "collapse s = (if has_blank_run s then collapse (replace_blank_run s) else s)"
  by pat_completeness auto
termination
  by (relation "measure length") (auto simp: replace_blank_run_shorter)

declare collapse.simps [simp del]

text \<open>
  \<open>__strip__\<close> of each kind of node (\<open>None\<close> where the library returns \<open>None\<close>), and
  \<open>strip_code\<close> of a list of nodes. A tag prints its contents when the contents are not
  empty as markup and the tag is visible; a bracketed external link prints its title, a
  bare one its URL; a wikilink prints its text, or its title when it has no text.
\<close>

fun strip_node :: "node \<Rightarrow> string option"
  and strip_code :: "node list \<Rightarrow> string"
  and join_stripped :: "node list \<Rightarrow> string"
where
  "strip_node (Text s) = Some s"
| "strip_node (Template source) = None"
| "strip_node (Comment source) = None"
| "strip_node (HTMLEntity body shown) = Some [shown]"
| "strip_node (Argument name dflt) =
     (case dflt of None \<Rightarrow> None | Some d \<Rightarrow> Some (strip_code d))"
| "strip_node (ExternalLink url title suppress_space) =
     (case title of
        None \<Rightarrow> None
      | Some t \<Rightarrow> if str_code t \<noteq> [] then Some (strip_code t) else None)"
| "strip_node (FreeLink url) = Some (strip_code url)"
| "strip_node (Heading level title) = Some (strip_code title)"
| "strip_node (Tag name visible opening contents closing) =
     (if str_code contents \<noteq> [] \<and> visible then Some (strip_code contents) else None)"
| "strip_node (Wikilink title shown) =
     (case shown of Some t \<Rightarrow> Some (strip_code t) | None \<Rightarrow> Some (strip_code title))"
| "strip_code nodes = collapse (strip_newlines (join_stripped nodes))"
| "join_stripped [] = []"
| "join_stripped (n # ns) =
     (case strip_node n of
        None \<Rightarrow> join_stripped ns
      | Some stripped \<Rightarrow> if stripped \<noteq> [] then stripped @ join_stripped ns else join_stripped ns)"

subsection \<open>The regular expressions\<close>

text \<open>
  \<open>re_rm_magic\<close> is \<open>__[A-Z]*__\<close>. A match at the start of a string is two underscores,
  the longest run of upper-case ASCII letters, and two underscores; \<open>match_magic\<close> returns
  what follows the match. (A shorter run of letters cannot match: the next character
  would be a letter.) \<open>re.sub\<close> with the empty replacement scans from the left, drops a
  match and goes on after it, and keeps a character at which nothing matches.
\<close>

definition isupper_ascii :: "char \<Rightarrow> bool" where
  "isupper_ascii c = (65 \<le> (of_char c :: nat) \<and> (of_char c :: nat) \<le> 90)"

definition match_magic :: "string \<Rightarrow> string option" where
  "match_magic s =
     (case s of
        a # b # t \<Rightarrow>
          if a = CHR ''_'' \<and> b = CHR ''_''
          then (case dropWhile isupper_ascii t of
                  c # d # rest \<Rightarrow> if c = CHR ''_'' \<and> d = CHR ''_'' then Some rest else None
                | _ \<Rightarrow> None)
          else None
      | _ \<Rightarrow> None)"

lemma match_magic_shorter: "match_magic s = Some rest \<Longrightarrow> length rest < length s"
proof -
  assume m: "match_magic s = Some rest"
  then obtain t where s: "s = CHR ''_'' # CHR ''_'' # t"
    by (auto simp: match_magic_def split: list.splits if_splits)
  with m have "dropWhile isupper_ascii t = CHR ''_'' # CHR ''_'' # rest"
    by (auto simp: match_magic_def split: list.splits if_splits)
  then have "length rest < length (dropWhile isupper_ascii t)" by simp
  also have "\<dots> \<le> length t" by (rule length_dropWhile_le)
  finally show ?thesis using s by simp
qed

function re_sub_magic :: "string \<Rightarrow> string" where
  "re_sub_magic s =
     (case match_magic s of
        Some rest \<Rightarrow> re_sub_magic rest
      | None \<Rightarrow> (case s of [] \<Rightarrow> [] | c # cs \<Rightarrow> c # re_sub_magic cs))"
  by pat_completeness auto
termination
  by (relation "measure length") (auto simp: match_magic_shorter)

declare re_sub_magic.simps [simp del]

text \<open>A string with a magic word somewhere in it.\<close>

fun has_magic :: "string \<Rightarrow> bool" where
  "has_magic [] = False"
| "has_magic (c # cs) = (match_magic (c # cs) \<noteq> None \<or> has_magic cs)"

text \<open>
  \<open>re_rm_wikilink\<close> and \<open>re_clean_wikilink\<close> are \<open>^(?:p1|p2|...):\<close> with
  \<open>re.IGNORECASE\<close>, the alternatives being the prefixes joined by \<open>|\<close> (the prefixes are
  words without a special character, see \<open>plain_word\<close> below, and are read literally). Two characters match when their lower-case forms are
  equal. The pattern matches only at the start of the string, with the first
  alternative that is followed by a colon there; \<open>re_prefix_match\<close> returns that
  alternative. \<open>re.sub\<close> with the empty replacement removes the match.
\<close>

definition lower :: "char \<Rightarrow> char" where
  "lower c =
     (let n = of_char c :: nat
      in if (65 \<le> n \<and> n \<le> 90) \<or> (192 \<le> n \<and> n \<le> 222 \<and> n \<noteq> 215) then char_of (n + 32) else c)"

definition re_prefix_match :: "string list \<Rightarrow> string \<Rightarrow> string option" where
  "re_prefix_match prefixes s =
     find (\<lambda>p. map lower (take (Suc (length p)) s) = map lower (p @ '':'')) prefixes"

definition re_prefix_sub :: "string list \<Rightarrow> string \<Rightarrow> string" where
  "re_prefix_sub prefixes s =
     (case re_prefix_match prefixes s of None \<Rightarrow> s | Some p \<Rightarrow> drop (Suc (length p)) s)"

text \<open>Whether a string holds another, compared without case.\<close>

definition contains_ci :: "string \<Rightarrow> string \<Rightarrow> bool" where
  "contains_ci needle hay =
     list_ex (\<lambda>k. map lower (take (length needle) (drop k hay)) = map lower needle)
       [0..<Suc (length hay)]"

section \<open>Cleaning: \<open>_parse_and_clean_wikicode\<close> and \<open>_clean_content\<close>\<close>

text \<open>
  The alias tables \<open>MEDIA_ALIASES\<close> and \<open>CAT_ALIASES\<close> map a language code to further
  prefixes. They are parameters of the model; \<open>.get(language, [])\<close> is the empty list for
  a language that is not in a table. The program joins the prefixes with \<open>|\<close> into a
  regular expression and does not escape them. An entry of a table is a word without a
  character that is special in a regular expression (one of \<open>. ^ $ * + ? { } [ ] | ( )\<close>
  and the backslash): such a word is a pattern that matches itself. \<open>plain_word\<close> is the
  type of these words, \<open>word_text\<close> the string of a word.
\<close>

typedef plain_word =
  "{s :: string. \<forall>c \<in> set s. c \<notin> set (''.^$*+?{}[]|()'' @ [CHR 0x5C])}"
  morphisms word_text Plain_word
  by (rule exI [of _ "[]"]) simp

record alias_tables =
  MEDIA_ALIASES :: "string \<rightharpoonup> plain_word list"
  CAT_ALIASES :: "string \<rightharpoonup> plain_word list"

definition media_prefixes :: "alias_tables \<Rightarrow> string \<Rightarrow> string list" where
  "media_prefixes tables language =
     [''File'', ''Image'', ''Media'']
     @ (case MEDIA_ALIASES tables language of None \<Rightarrow> [] | Some aliases \<Rightarrow> map word_text aliases)"

definition cat_prefixes :: "alias_tables \<Rightarrow> string \<Rightarrow> string list" where
  "cat_prefixes tables language =
     [''Category'']
     @ (case CAT_ALIASES tables language of None \<Rightarrow> [] | Some aliases \<Rightarrow> map word_text aliases)"

text \<open>
  The parser of the library turns a string into nodes, or raises. It keeps every
  character of the markup: \<open>str\<close> of the nodes it returns is the string it was given.
  \<open>wikiparser\<close> is the type of the functions with this property. The library is a
  parameter of the model, and nothing else is assumed of it.
\<close>

typedef wikiparser =
  "{p :: string \<Rightarrow> py_error + node list. \<forall>s nodes. p s = Inr nodes \<longrightarrow> str_code nodes = s}"
  morphisms parse Parser
  by (rule exI [of _ "\<lambda>s. Inl ParserError"]) simp

lemma parse_roundtrip: "parse library s = Inr nodes \<Longrightarrow> str_code nodes = s"
  using parse [of library] by simp

text \<open>
  The tests of the loops. \<open>rm_wikilink\<close> and \<open>is_category\<close> are applied to wikilinks,
  \<open>rm_tag\<close> to tags; on any other node they are false, as \<open>ifilter_wikilinks\<close> and
  \<open>ifilter_tags\<close> do not yield it.
\<close>

definition rm_wikilink :: "alias_tables \<Rightarrow> string \<Rightarrow> node \<Rightarrow> bool" where
  "rm_wikilink tables language obj =
     (case obj of
        Wikilink title shown \<Rightarrow>
          re_prefix_match (media_prefixes tables language) (str_code title) \<noteq> None
      | _ \<Rightarrow> False)"

definition rm_tag :: "node \<Rightarrow> bool" where
  "rm_tag obj =
     (case obj of Tag name visible opening contents closing \<Rightarrow> name \<in> {''ref'', ''table''}
      | _ \<Rightarrow> False)"

definition is_category :: "alias_tables \<Rightarrow> string \<Rightarrow> node \<Rightarrow> bool" where
  "is_category tables language obj =
     (case obj of
        Wikilink title shown \<Rightarrow>
          re_prefix_match (cat_prefixes tables language) (str_code title) \<noteq> None
      | _ \<Rightarrow> False)"

text \<open>
  \<open>clean_wikilink\<close>: the display text is \<open>obj.__strip__()\<close>, the new text is the display
  text after \<open>re.sub(re_clean_wikilink, "", text)\<close>. The assignment \<open>obj.text = text\<close> runs
  the setter of the library, which parses the string: the text of the node becomes the
  nodes the library reads in the new text (a display text can hold markup again, for
  instance what stood in a \<open>nowiki\<close> tag). An exception of the library leaves
  \<open>clean_wikilink\<close> and the node is unchanged. \<open>try_replace_obj\<close> calls \<open>clean_wikilink\<close>
  and swallows a \<open>ValueError\<close>; any other exception passes through.
\<close>

definition display_text :: "node \<Rightarrow> string" where
  "display_text obj = (case strip_node obj of None \<Rightarrow> [] | Some s \<Rightarrow> s)"

definition rewritten_text :: "alias_tables \<Rightarrow> string \<Rightarrow> node \<Rightarrow> string" where
  "rewritten_text tables language obj =
     re_prefix_sub (cat_prefixes tables language) (display_text obj)"

definition clean_wikilink :: "alias_tables \<Rightarrow> wikiparser \<Rightarrow> string \<Rightarrow> node \<Rightarrow> py_error + node" where
  "clean_wikilink tables library language obj =
     (case obj of
        Wikilink title shown \<Rightarrow>
          (case parse library (rewritten_text tables language obj) of
             Inl e \<Rightarrow> Inl e
           | Inr nodes \<Rightarrow> Inr (Wikilink title (Some nodes)))
      | _ \<Rightarrow> Inr obj)"

definition try_replace_obj :: "alias_tables \<Rightarrow> wikiparser \<Rightarrow> string \<Rightarrow> node \<Rightarrow> py_error + node" where
  "try_replace_obj tables library language obj =
     (case clean_wikilink tables library language obj of
        Inl e \<Rightarrow> if e = ValueError then Inr obj else Inl e
      | Inr obj' \<Rightarrow> Inr obj')"

subsection \<open>The loops over a section\<close>

text \<open>
  \<open>section.ifilter_wikilinks(recursive=True)\<close> and \<open>section.ifilter_tags(...)\<close> are
  generators: they yield a node, then the nodes inside it, and the body of the loop runs
  between two steps. The nodes of the section itself are collected before the first
  step; every list of nodes below them is iterated in place. \<open>section.remove(obj)\<close>
  deletes \<open>obj\<close> from the list that holds it. When that list is being iterated, the
  node after \<open>obj\<close> moves into the position of the iterator and the next step passes
  over it: the node that follows a removed node is neither tested nor entered.

  The generator still runs through a removed node, but nothing in it belongs to the
  section any more, and \<open>section.remove\<close> raises \<open>ValueError\<close> for a node in it, which
  \<open>try_remove_obj\<close> swallows.

  \<open>live_iter\<close> is the loop over a list iterated in place, \<open>snapshot_iter\<close> the loop over
  the nodes of the section: \<open>remove\<close> tells whether the body removes a node, and \<open>visit\<close>
  is what the loop does to a node it keeps and to the nodes inside it. \<open>live_iter_try\<close>
  and \<open>snapshot_iter_try\<close> are the same loops with a body that can raise: the first
  exception ends the loop. \<open>then_do r f\<close> goes on with \<open>f\<close> when \<open>r\<close> is a value and is the
  exception otherwise.
\<close>

definition then_do :: "py_error + 'a \<Rightarrow> ('a \<Rightarrow> py_error + 'b) \<Rightarrow> py_error + 'b" where
  "then_do r f = (case r of Inl e \<Rightarrow> Inl e | Inr x \<Rightarrow> f x)"

lemma then_do_cong [fundef_cong]:
  "r = r' \<Longrightarrow> (\<And>x. r' = Inr x \<Longrightarrow> f x = g x) \<Longrightarrow> then_do r f = then_do r' g"
  by (auto simp: then_do_def split: sum.splits)

fun live_iter :: "('a \<Rightarrow> bool) \<Rightarrow> ('a \<Rightarrow> 'a) \<Rightarrow> 'a list \<Rightarrow> 'a list" where
  "live_iter remove visit [] = []"
| "live_iter remove visit [x] = (if remove x then [] else [visit x])"
| "live_iter remove visit (x # y # ys) =
     (if remove x then y # live_iter remove visit ys
      else visit x # live_iter remove visit (y # ys))"

lemma live_iter_cong [fundef_cong]:
  "xs = ys \<Longrightarrow> (\<And>x. x \<in> set ys \<Longrightarrow> f x = g x) \<Longrightarrow> live_iter r f xs = live_iter r g ys"
proof -
  have "(\<And>x. x \<in> set xs \<Longrightarrow> f x = g x) \<Longrightarrow> live_iter r f xs = live_iter r g xs"
    by (induction r f xs rule: live_iter.induct) auto
  then show "xs = ys \<Longrightarrow> (\<And>x. x \<in> set ys \<Longrightarrow> f x = g x) \<Longrightarrow> ?thesis" by simp
qed

definition snapshot_iter :: "('a \<Rightarrow> bool) \<Rightarrow> ('a \<Rightarrow> 'a) \<Rightarrow> 'a list \<Rightarrow> 'a list" where
  "snapshot_iter remove visit xs = map visit (filter (\<lambda>x. \<not> remove x) xs)"

fun live_iter_try ::
  "('a \<Rightarrow> bool) \<Rightarrow> ('a \<Rightarrow> py_error + 'a) \<Rightarrow> 'a list \<Rightarrow> py_error + 'a list" where
  "live_iter_try remove visit [] = Inr []"
| "live_iter_try remove visit [x] =
     (if remove x then Inr [] else then_do (visit x) (\<lambda>x'. Inr [x']))"
| "live_iter_try remove visit (x # y # ys) =
     (if remove x then then_do (live_iter_try remove visit ys) (\<lambda>rest. Inr (y # rest))
      else then_do (visit x)
             (\<lambda>x'. then_do (live_iter_try remove visit (y # ys)) (\<lambda>rest. Inr (x' # rest))))"

lemma live_iter_try_cong [fundef_cong]:
  "xs = ys \<Longrightarrow> (\<And>x. x \<in> set ys \<Longrightarrow> f x = g x) \<Longrightarrow>
   live_iter_try r f xs = live_iter_try r g ys"
proof -
  have "(\<And>x. x \<in> set xs \<Longrightarrow> f x = g x) \<Longrightarrow> live_iter_try r f xs = live_iter_try r g xs"
    by (induction r f xs rule: live_iter_try.induct) (auto simp: then_do_def split: sum.splits)
  then show "xs = ys \<Longrightarrow> (\<And>x. x \<in> set ys \<Longrightarrow> f x = g x) \<Longrightarrow> ?thesis" by simp
qed

fun snapshot_iter_try ::
  "('a \<Rightarrow> bool) \<Rightarrow> ('a \<Rightarrow> py_error + 'a) \<Rightarrow> 'a list \<Rightarrow> py_error + 'a list" where
  "snapshot_iter_try remove visit [] = Inr []"
| "snapshot_iter_try remove visit (x # xs) =
     (if remove x then snapshot_iter_try remove visit xs
      else then_do (visit x)
             (\<lambda>x'. then_do (snapshot_iter_try remove visit xs) (\<lambda>rest. Inr (x' # rest))))"

definition try_option :: "('a \<Rightarrow> py_error + 'a) \<Rightarrow> 'a option \<Rightarrow> py_error + 'a option" where
  "try_option visit opt =
     (case opt of None \<Rightarrow> Inr None | Some x \<Rightarrow> then_do (visit x) (\<lambda>x'. Inr (Some x')))"

lemma try_option_cong [fundef_cong]:
  "opt = opt' \<Longrightarrow> (\<And>x. opt' = Some x \<Longrightarrow> f x = g x) \<Longrightarrow> try_option f opt = try_option g opt'"
  by (auto simp: try_option_def split: option.splits)

text \<open>
  The first loop enters the text that \<open>clean_wikilink\<close> has just stored. It ends
  because the markup of that text is shorter than the markup of the link: \<open>strip_code\<close>
  never makes a text longer, and the library returns nodes whose markup is the string
  it was given.
\<close>

lemma strip_newlines_length: "length (strip_newlines s) \<le> length s"
proof -
  have "length (dropWhile P (rev (dropWhile P s))) \<le> length s" for P :: "char \<Rightarrow> bool"
    by (metis length_dropWhile_le length_rev order_trans)
  then show ?thesis by (simp add: strip_newlines_def)
qed

lemma collapse_length: "length (collapse s) \<le> length s"
proof (induction s rule: collapse.induct)
  case (1 s)
  show ?case
  proof (cases "has_blank_run s")
    case True
    with 1 have "length (collapse (replace_blank_run s)) \<le> length (replace_blank_run s)" by simp
    with True show ?thesis
      using replace_blank_run_length [of s] by (subst collapse.simps) simp
  next
    case False
    then show ?thesis by (subst collapse.simps) simp
  qed
qed

lemma strip_length:
  "strip_node n = Some s \<Longrightarrow> length s \<le> length (str_node n)"
  "length (strip_code nodes) \<le> length (str_code nodes)"
  "length (join_stripped nodes) \<le> length (str_code nodes)"
proof (induction n and nodes and nodes arbitrary: s rule: strip_node_strip_code_join_stripped.induct)
  case (11 nodes)
  have "length (collapse (strip_newlines (join_stripped nodes))) \<le> length (join_stripped nodes)"
    using collapse_length [of "strip_newlines (join_stripped nodes)"]
      strip_newlines_length [of "join_stripped nodes"] by simp
  with 11 show ?case by simp
next
  case (13 n ns)
  then show ?case by (auto split: option.splits)
qed (auto split: option.splits if_splits simp: le_imp_less_Suc)

lemma str_node_in_code: "x \<in> set nodes \<Longrightarrow> length (str_node x) \<le> length (str_code nodes)"
  by (induction nodes) auto

lemma size_in_code: "x \<in> set nodes \<Longrightarrow> size x < Suc (size_list size nodes)"
  by (induction nodes) auto

lemma re_prefix_sub_length: "length (re_prefix_sub prefixes s) \<le> length s"
  by (simp add: re_prefix_sub_def split: option.splits)

lemma display_text_shorter:
  "length (display_text (Wikilink title shown)) < length (str_node (Wikilink title shown))"
proof (cases shown)
  case None
  then show ?thesis
    using strip_length(2) [of title] by (simp add: display_text_def del: strip_code.simps)
next
  case (Some t)
  then show ?thesis
    using strip_length(2) [of t] by (simp add: display_text_def del: strip_code.simps)
qed

lemma try_replace_obj_result:
  assumes "try_replace_obj tables library language (Wikilink title shown) = Inr obj'"
  shows "\<exists>shown'. obj' = Wikilink title shown' \<and>
           (shown' = shown \<or>
            (\<exists>nodes. shown' = Some nodes \<and>
               length (str_code nodes) < length (str_node (Wikilink title shown))))"
proof (cases "parse library (rewritten_text tables language (Wikilink title shown))")
  case (Inl e)
  with assms show ?thesis
    by (auto simp: try_replace_obj_def clean_wikilink_def split: if_splits)
next
  case (Inr nodes)
  then have "str_code nodes = rewritten_text tables language (Wikilink title shown)"
    by (rule parse_roundtrip)
  then have "length (str_code nodes) \<le> length (display_text (Wikilink title shown))"
    by (simp add: rewritten_text_def re_prefix_sub_length)
  then have "length (str_code nodes) < length (str_node (Wikilink title shown))"
    using display_text_shorter [of title shown] by simp
  with assms Inr show ?thesis
    by (auto simp: try_replace_obj_def clean_wikilink_def)
qed

definition node_order :: "(node \<times> node) set" where
  "node_order = measures [\<lambda>n. length (str_node n), size]"

lemma node_order_child:
  "length (str_node x) \<le> length (str_node y) \<Longrightarrow> size x < size y \<Longrightarrow> (x, y) \<in> node_order"
  by (auto simp: node_order_def)

lemma node_order_shorter:
  "length (str_node x) < length (str_node y) \<Longrightarrow> (x, y) \<in> node_order"
  by (simp add: node_order_def)

lemma child_order:
  "x \<in> set nodes \<Longrightarrow> length (str_code nodes) \<le> length (str_node y) \<Longrightarrow>
   size_list size nodes < size y \<Longrightarrow> (x, y) \<in> node_order"
  using str_node_in_code [of x nodes] size_in_code [of x nodes]
  by (intro node_order_child) auto

lemma wikilink_after_rewrite:
  assumes "(if is_category tables language (Wikilink title shown)
            then try_replace_obj tables library language (Wikilink title shown)
            else Inr (Wikilink title shown)) = Inr (Wikilink title1 shown1)"
  shows "title1 = title \<and>
         (shown1 = shown \<or>
          (\<exists>nodes. shown1 = Some nodes \<and>
             length (str_code nodes) < length (str_node (Wikilink title shown))))"
  using assms try_replace_obj_result [of tables library language title shown "Wikilink title1 shown1"]
  by (auto split: if_splits)

text \<open>
  The first loop at a node it keeps. A wikilink that is a category link is rewritten
  by \<open>try_replace_obj\<close> before the generator enters it, so the generator runs through
  its title and its new text.
\<close>

function visit_wikilinks :: "alias_tables \<Rightarrow> wikiparser \<Rightarrow> string \<Rightarrow> node \<Rightarrow> py_error + node" where
  "visit_wikilinks tables library language (Argument name dflt) =
     then_do (live_iter_try (rm_wikilink tables language)
                (visit_wikilinks tables library language) name)
       (\<lambda>name'. then_do (try_option (live_iter_try (rm_wikilink tables language)
                                      (visit_wikilinks tables library language)) dflt)
          (\<lambda>dflt'. Inr (Argument name' dflt')))"
| "visit_wikilinks tables library language (ExternalLink url title suppress_space) =
     then_do (live_iter_try (rm_wikilink tables language)
                (visit_wikilinks tables library language) url)
       (\<lambda>url'. then_do (try_option (live_iter_try (rm_wikilink tables language)
                                     (visit_wikilinks tables library language)) title)
          (\<lambda>title'. Inr (ExternalLink url' title' suppress_space)))"
| "visit_wikilinks tables library language (FreeLink url) =
     then_do (live_iter_try (rm_wikilink tables language)
                (visit_wikilinks tables library language) url)
       (\<lambda>url'. Inr (FreeLink url'))"
| "visit_wikilinks tables library language (Heading level title) =
     then_do (live_iter_try (rm_wikilink tables language)
                (visit_wikilinks tables library language) title)
       (\<lambda>title'. Inr (Heading level title'))"
| "visit_wikilinks tables library language (Tag name visible opening contents closing) =
     then_do (live_iter_try (rm_wikilink tables language)
                (visit_wikilinks tables library language) contents)
       (\<lambda>contents'. Inr (Tag name visible opening contents' closing))"
| "visit_wikilinks tables library language (Wikilink title shown) =
     (if rm_wikilink tables language (Wikilink title shown) then Inr (Wikilink title shown)
      else
        then_do (if is_category tables language (Wikilink title shown)
                 then try_replace_obj tables library language (Wikilink title shown)
                 else Inr (Wikilink title shown))
          (\<lambda>obj. case obj of
             Wikilink title1 shown1 \<Rightarrow>
               then_do (live_iter_try (rm_wikilink tables language)
                          (visit_wikilinks tables library language) title1)
                 (\<lambda>title'. then_do (try_option (live_iter_try (rm_wikilink tables language)
                                                 (visit_wikilinks tables library language)) shown1)
                    (\<lambda>shown'. Inr (Wikilink title' shown')))
           | _ \<Rightarrow> Inr obj))"
| "visit_wikilinks tables library language (Text s) = Inr (Text s)"
| "visit_wikilinks tables library language (Template source) = Inr (Template source)"
| "visit_wikilinks tables library language (Comment source) = Inr (Comment source)"
| "visit_wikilinks tables library language (HTMLEntity body shown) = Inr (HTMLEntity body shown)"
  by pat_completeness auto
termination
proof (relation "inv_image node_order (\<lambda>(tables, library, language, n). n)", goal_cases)
  case 1
  show ?case by (simp add: node_order_def)
next
  case (2 tables library language name dflt x)
  then show ?case by (auto intro: child_order)
next
  case (3 tables library language name dflt x nodes y)
  then show ?case by (auto intro: child_order)
next
  case (4 tables library language url title suppress_space x)
  then show ?case by (auto intro!: child_order [of x url] split: option.splits)
next
  case (5 tables library language url title suppress_space x nodes y)
  then show ?case by (auto intro!: child_order [of y nodes])
next
  case (6 tables library language url x)
  then show ?case by (auto intro: child_order)
next
  case (7 tables library language level title x)
  then show ?case by (auto intro: child_order)
next
  case (8 tables library language name visible before contents after x)
  then show ?case by (auto intro: child_order)
next
  case (9 tables library language title shown obj title1 shown1 x)
  from 9(2) 9(3) have "(if is_category tables language (Wikilink title shown)
            then try_replace_obj tables library language (Wikilink title shown)
            else Inr (Wikilink title shown)) = Inr (Wikilink title1 shown1)"
    by simp
  from wikilink_after_rewrite [OF this] have "title1 = title" by simp
  with 9(4) show ?case by (auto intro: child_order)
next
  case (10 tables library language title shown obj title1 shown1 xs nodes x)
  from 10(2) 10(3) 10(5) have "(if is_category tables language (Wikilink title shown)
            then try_replace_obj tables library language (Wikilink title shown)
            else Inr (Wikilink title shown)) = Inr (Wikilink title1 (Some nodes))"
    by simp
  from wikilink_after_rewrite [OF this]
  have "Some nodes = shown \<or>
        length (str_code nodes) < length (str_node (Wikilink title shown))"
    by auto
  then show ?case
  proof
    assume "Some nodes = shown"
    with 10(6) show ?thesis by (auto intro: child_order)
  next
    assume "length (str_code nodes) < length (str_node (Wikilink title shown))"
    with str_node_in_code [OF 10(6)]
    have "length (str_node x) < length (str_node (Wikilink title shown))" by simp
    then show ?thesis by (simp add: node_order_shorter)
  qed
qed

text \<open>The second loop at a node it keeps. Its body cannot raise.\<close>

fun visit_tags :: "node \<Rightarrow> node" where
  "visit_tags (Argument name dflt) =
     Argument (live_iter rm_tag visit_tags name) (map_option (live_iter rm_tag visit_tags) dflt)"
| "visit_tags (ExternalLink url title suppress_space) =
     ExternalLink (live_iter rm_tag visit_tags url) (map_option (live_iter rm_tag visit_tags) title)
       suppress_space"
| "visit_tags (FreeLink url) = FreeLink (live_iter rm_tag visit_tags url)"
| "visit_tags (Heading level title) = Heading level (live_iter rm_tag visit_tags title)"
| "visit_tags (Tag name visible opening contents closing) =
     Tag name visible opening (live_iter rm_tag visit_tags contents) closing"
| "visit_tags (Wikilink title shown) =
     Wikilink (live_iter rm_tag visit_tags title) (map_option (live_iter rm_tag visit_tags) shown)"
| "visit_tags leaf = leaf"

text \<open>A section after the two loops, and the text appended for it.\<close>

definition filter_section ::
  "alias_tables \<Rightarrow> wikiparser \<Rightarrow> string \<Rightarrow> node list \<Rightarrow> py_error + node list" where
  "filter_section tables library language section =
     then_do (snapshot_iter_try (rm_wikilink tables language)
                (visit_wikilinks tables library language) section)
       (\<lambda>section1. Inr (snapshot_iter rm_tag visit_tags section1))"

definition section_text ::
  "alias_tables \<Rightarrow> wikiparser \<Rightarrow> string \<Rightarrow> node list \<Rightarrow> py_error + string" where
  "section_text tables library language section =
     then_do (filter_section tables library language section)
       (\<lambda>section2. Inr (re_sub_magic (py_strip (strip_code section2))))"

subsection \<open>Sections and the cleaned text\<close>

text \<open>
  \<open>get_sections(flat=True, include_lead=True, include_headings=True)\<close>: the nodes
  before the first heading (a section even when there are none), then one section per
  heading, from the heading to the node before the next heading. Only the headings among
  the nodes of the page itself count.
\<close>

definition is_heading :: "node \<Rightarrow> bool" where
  "is_heading n = (case n of Heading level title \<Rightarrow> True | _ \<Rightarrow> False)"

fun get_sections :: "node list \<Rightarrow> node list list" where
  "get_sections [] = [[]]"
| "get_sections (n # ns) =
     (case get_sections ns of
        [] \<Rightarrow> [[n]]
      | s # ss \<Rightarrow> if is_heading n then [] # (n # s) # ss else (n # s) # ss)"

text \<open>\<open>sep.join(strings)\<close>.\<close>

fun join :: "string \<Rightarrow> string list \<Rightarrow> string" where
  "join sep [] = []"
| "join sep [s] = s"
| "join sep (s # t # ss) = s @ sep @ join sep (t # ss)"

text \<open>The loop over the sections: the first exception ends it.\<close>

fun for_each :: "('a \<Rightarrow> py_error + 'b) \<Rightarrow> 'a list \<Rightarrow> py_error + 'b list" where
  "for_each body [] = Inr []"
| "for_each body (x # xs) =
     then_do (body x) (\<lambda>y. then_do (for_each body xs) (\<lambda>ys. Inr (y # ys)))"

text \<open>
  \<open>_parse_and_clean_wikicode\<close> after the parse, and as a whole. \<open>parser\<close> is the argument
  of that name, whose \<open>parse\<close> is called on the raw content; \<open>library\<close> is the parser
  behind the setter of \<open>obj.text\<close>. An exception of either passes through.
\<close>

definition clean_wikicode ::
  "alias_tables \<Rightarrow> wikiparser \<Rightarrow> string \<Rightarrow> node list \<Rightarrow> py_error + string" where
  "clean_wikicode tables library language wikicode =
     then_do (for_each (section_text tables library language) (get_sections wikicode))
       (\<lambda>section_texts. Inr (join ''\<newline>\<newline>'' section_texts))"

definition parse_and_clean_wikicode ::
  "alias_tables \<Rightarrow> wikiparser \<Rightarrow> string \<Rightarrow> (string \<Rightarrow> py_error + node list) \<Rightarrow> string
   \<Rightarrow> py_error + string" where
  "parse_and_clean_wikicode tables library raw_content parser language =
     then_do (parser raw_content) (clean_wikicode tables library language)"

text \<open>
  \<open>_clean_content\<close> is a generator that yields at most once: the model returns the list
  of what it yields. It passes the library as the parser. A \<open>ParserError\<close> is caught
  and ends the generator; any other exception leaves it.
\<close>

record cleaned_article =
  art_id :: string
  art_url :: string
  art_title :: string
  art_text :: string

definition clean_content ::
  "alias_tables \<Rightarrow> wikiparser \<Rightarrow> string \<times> string \<times> string \<Rightarrow> string \<Rightarrow> int
   \<Rightarrow> py_error + (string \<times> cleaned_article) list" where
  "clean_content tables library inputs language min_text_length =
     (case inputs of (id_, title, raw_content) \<Rightarrow>
        (case parse_and_clean_wikicode tables library raw_content (parse library) language of
           Inl e \<Rightarrow> if e = ParserError then Inr [] else Inl e
         | Inr cleaned \<Rightarrow>
             if cleaned = [] \<or> int (length cleaned) < min_text_length then Inr []
             else Inr [(id_, \<lparr>art_id = id_, art_url = construct_url title language,
                               art_title = title, art_text = cleaned\<rparr>)]))"

subsection \<open>The scan of \<open>re.sub\<close> for magic words\<close>

text \<open>
  A text cut at the matches of one scan: \<open>pieces\<close> are pairs of a piece of text and the
  letters of the magic word that follows it, \<open>final\<close> is what follows the last magic
  word. \<open>assemble\<close> is the text, \<open>kept_text\<close> the pieces without the magic words.
  \<open>scanned\<close> holds when the cut is the one the scan makes: the letters are upper-case
  letters, no match of the pattern starts at a character of a piece (a match being looked
  for in all the text from that character on), and none in the final part.
\<close>

fun assemble :: "(string \<times> string) list \<Rightarrow> string \<Rightarrow> string" where
  "assemble [] final = final"
| "assemble ((piece, word) # rest) final = piece @ ''__'' @ word @ ''__'' @ assemble rest final"

fun kept_text :: "(string \<times> string) list \<Rightarrow> string \<Rightarrow> string" where
  "kept_text [] final = final"
| "kept_text ((piece, word) # rest) final = piece @ kept_text rest final"

fun scanned :: "(string \<times> string) list \<Rightarrow> string \<Rightarrow> bool" where
  "scanned [] final = (\<not> has_magic final)"
| "scanned ((piece, word) # rest) final =
     (list_all isupper_ascii word \<and>
      list_all (\<lambda>k. match_magic (drop k (piece @ ''__'' @ word @ ''__'' @ assemble rest final)) = None)
        [0..<length piece] \<and>
      scanned rest final)"

subsection \<open>Parsers and tables of the examples\<close>

text \<open>
  A parser on text without markup, which the library parses into one text node (and
  the empty text into no node); a parser that reads one wikilink and everything else
  as text; alias tables without entries, and tables with German aliases.
\<close>

definition text_nodes :: "string \<Rightarrow> py_error + node list" where
  "text_nodes s = Inr (if s = [] then [] else [Text s])"

definition text_parser :: wikiparser where
  "text_parser = Parser text_nodes"

lemma parse_text_parser: "parse text_parser = text_nodes"
  unfolding text_parser_def by (rule Parser_inverse) (auto simp: text_nodes_def)

definition no_aliases :: alias_tables where
  "no_aliases = \<lparr>MEDIA_ALIASES = Map.empty, CAT_ALIASES = Map.empty\<rparr>"

definition nested_nodes :: "string \<Rightarrow> py_error + node list" where
  "nested_nodes s =
     (if s = ''[[File:a.jpg]]'' then Inr [Wikilink [Text ''File:a.jpg''] None] else text_nodes s)"

definition nested_parser :: wikiparser where
  "nested_parser = Parser nested_nodes"

lemma parse_nested_parser: "parse nested_parser = nested_nodes"
  unfolding nested_parser_def
  by (rule Parser_inverse) (auto simp: nested_nodes_def text_nodes_def split: if_splits)

definition example_aliases :: alias_tables where
  "example_aliases =
     \<lparr>MEDIA_ALIASES = [''de'' \<mapsto> [Plain_word ''Datei'', Plain_word ''Bild'']],
      CAT_ALIASES = [''de'' \<mapsto> [Plain_word ''Kategorie'']]\<rparr>"

lemma word_text_Plain_word:
  "\<forall>c \<in> set s. c \<notin> set (''.^$*+?{}[]|()'' @ [CHR 0x5C]) \<Longrightarrow> word_text (Plain_word s) = s"
  by (rule Plain_word_inverse) simp

lemma example_words:
  "word_text (Plain_word ''Datei'') = ''Datei''"
  "word_text (Plain_word ''Bild'') = ''Bild''"
  "word_text (Plain_word ''Kategorie'') = ''Kategorie''"
  by (rule word_text_Plain_word, simp)+

section \<open>Properties of the stream index\<close>

lemma row_offsets_valid:
  "\<forall>row \<in> set rows. row \<noteq> [] \<and> (\<exists>n. py_int (hd row) = Inr n) \<Longrightarrow>
   \<exists>ns. row_offsets rows = Inr ns \<and> map Inr ns = map (\<lambda>row. py_int (hd row)) rows"
proof (induction rows)
  case Nil
  show ?case by simp
next
  case (Cons row rows)
  from Cons.prems obtain f fs n where row: "row = f # fs" and n: "py_int f = Inr n"
    by (cases row) auto
  from Cons obtain ns where ns: "row_offsets rows = Inr ns"
    and eq: "map Inr ns = map (\<lambda>row. py_int (hd row)) rows"
    by auto
  show ?case using row n ns eq by simp
qed

lemma pairwise_starts: "map fst (pairwise_py index) = map Some index"
proof -
  have "map fst (zip_longest (x # xs) xs) = map Some (x # xs)" for x :: 'a and xs
    by (induction xs arbitrary: x) auto
  then show ?thesis by (cases index) (auto simp: pairwise_py_def)
qed

lemma pairwise_length: "length (pairwise_py index) = length index"
  using pairwise_starts [of index] by (metis length_map)

lemma pairwise_ends:
  "Suc i < length index \<Longrightarrow> snd (pairwise_py index ! i) = Some (index ! Suc i)"
proof -
  have "Suc i < length (x # xs) \<Longrightarrow>
        snd (zip_longest (x # xs) xs ! i) = Some ((x # xs) ! Suc i)" for x :: 'a and xs
  proof (induction xs arbitrary: x i)
    case Nil
    then show ?case by simp
  next
    case (Cons y ys)
    then show ?case by (cases i) auto
  qed
  then show "Suc i < length index \<Longrightarrow> ?thesis" by (cases index) (auto simp: pairwise_py_def)
qed

lemma pairwise_last: "index \<noteq> [] \<Longrightarrow> snd (last (pairwise_py index)) = None"
proof -
  have "zip_longest (x # xs) xs \<noteq> [] \<and> snd (last (zip_longest (x # xs) xs)) = None"
    for x :: 'a and xs
    by (induction xs arbitrary: x) auto
  then show "index \<noteq> [] \<Longrightarrow> ?thesis" by (cases index) (auto simp: pairwise_py_def)
qed

text \<open>
  C1. For every valid index file (rows that each have a first field that parses as an
  integer, duplicates allowed), \<open>build_index\<close> returns ranges whose starts are the
  distinct offsets of the file in strictly increasing order, whose end is the start of
  the next range, and whose last range has no end. The offsets 5, 5, 20 give the ranges
  (5, 20), (20, None).
\<close>

theorem build_index_ranges:
  "((\<forall>row \<in> set rows. row \<noteq> [] \<and> (\<exists>n. py_int (hd row) = Inr n)) \<longrightarrow>
     (\<exists>rs starts.
        build_index rows = Inr rs \<and>
        map fst rs = map Some starts \<and>
        sorted_wrt (<) starts \<and>
        Inr ` set starts = (\<lambda>row. py_int (hd row)) ` set rows \<and>
        (\<forall>i. Suc i < length rs \<longrightarrow> snd (rs ! i) = fst (rs ! Suc i)) \<and>
        (rs \<noteq> [] \<longrightarrow> snd (last rs) = None)))
   \<and> build_index [[''5'', ''1'', ''A''], [''5'', ''2'', ''B''], [''20'', ''3'', ''C'']]
       = Inr [(Some 5, Some 20), (Some 20, None)]"
proof (intro conjI impI)
  assume valid: "\<forall>row \<in> set rows. row \<noteq> [] \<and> (\<exists>n. py_int (hd row) = Inr n)"
  from row_offsets_valid [OF valid] obtain ns where ns: "row_offsets rows = Inr ns"
    and eq: "map Inr ns = map (\<lambda>row. py_int (hd row)) rows"
    by blast
  define starts where "starts = sorted_list_of_set (set ns)"
  define rs where "rs = pairwise_py starts"
  have b: "build_index rows = Inr rs"
    by (simp add: build_index_def extract_index_def ns starts_def rs_def)
  have s: "sorted_wrt (<) starts"
    by (simp add: starts_def strict_sorted_iff)
  have "set starts = set ns" by (simp add: starts_def)
  moreover have "Inr ` set ns = (\<lambda>row. py_int (hd row)) ` set rows"
    using arg_cong [OF eq, of set] by simp
  ultimately have o: "Inr ` set starts = (\<lambda>row. py_int (hd row)) ` set rows"
    by simp
  have len: "length rs = length starts" by (simp add: rs_def pairwise_length)
  have c: "\<forall>i. Suc i < length rs \<longrightarrow> snd (rs ! i) = fst (rs ! Suc i)"
  proof (intro allI impI)
    fix i assume i: "Suc i < length rs"
    then have "fst (rs ! Suc i) = map fst rs ! Suc i" by simp
    also have "\<dots> = Some (starts ! Suc i)"
      using i len by (simp add: rs_def pairwise_starts)
    finally show "snd (rs ! i) = fst (rs ! Suc i)"
      using i len by (simp add: rs_def pairwise_ends)
  qed
  have l: "rs \<noteq> [] \<longrightarrow> snd (last rs) = None"
  proof
    assume "rs \<noteq> []"
    then have "starts \<noteq> []" using len by auto
    then show "snd (last rs) = None" unfolding rs_def by (rule pairwise_last)
  qed
  show "\<exists>rs starts.
      build_index rows = Inr rs \<and>
      map fst rs = map Some starts \<and>
      sorted_wrt (<) starts \<and>
      Inr ` set starts = (\<lambda>row. py_int (hd row)) ` set rows \<and>
      (\<forall>i. Suc i < length rs \<longrightarrow> snd (rs ! i) = fst (rs ! Suc i)) \<and>
      (rs \<noteq> [] \<longrightarrow> snd (last rs) = None)"
    using b s o c l by (auto simp: rs_def pairwise_starts)
next
  show "build_index [[''5'', ''1'', ''A''], [''5'', ''2'', ''B''], [''20'', ''3'', ''C'']]
       = Inr [(Some 5, Some 20), (Some 20, None)]"
    by (simp add: build_index_def extract_index_def pairwise_py_def py_int_def int_space_def
        int_max_str_digits_def py_unsigned_def digit_of_def)
qed

theorem build_index_ranges_witness:
  "py_int ''5'' = Inr 5 \<and> py_int ''20'' = Inr 20 \<and>
   (\<exists>rs starts.
      build_index [[''5''], [''5''], [''20'']] = Inr rs \<and>
      map fst rs = map Some starts \<and>
      sorted_wrt (<) starts \<and>
      (\<forall>i. Suc i < length rs \<longrightarrow> snd (rs ! i) = fst (rs ! Suc i)) \<and>
      (rs \<noteq> [] \<longrightarrow> snd (last rs) = None))"
proof -
  have p: "py_int ''5'' = Inr 5" "py_int ''20'' = Inr 20"
    by (simp_all add: py_int_def int_space_def int_max_str_digits_def py_unsigned_def
        digit_of_def)
  then have h: "\<forall>row \<in> set [[''5''], [''5''], [''20'']]. row \<noteq> [] \<and> (\<exists>n. py_int (hd row) = Inr n)"
    by simp
  from build_index_ranges [of "[[''5''], [''5''], [''20'']]"] h p show ?thesis
    by blast
qed

section \<open>Properties of the article stream\<close>

lemma not_endswith_page:
  assumes "last suffix \<noteq> CHR ''e''" "suffix \<noteq> []"
  shows "\<not> endswith (namespace @ suffix) ''page''"
proof
  let ?s = "namespace @ suffix"
  assume "endswith ?s ''page''"
  then have d: "drop (length ?s - length ''page'') ?s = ''page''"
    unfolding endswith_def by (rule conjunct2)
  have "length ?s - length ''page'' < length ?s"
    using assms(2) by (cases suffix) auto
  then have "last (drop (length ?s - length ''page'') ?s) = last ?s"
    by (rule last_drop)
  then have "last ?s = last ''page''" by (simp only: d)
  then show False using assms by simp
qed

lemma find_same_shape:
  "list_all2 same_shape cs cs' \<Longrightarrow>
   (case find (\<lambda>c. tag c = name) cs of
      None \<Rightarrow> find (\<lambda>c. tag c = name) cs' = None
    | Some n \<Rightarrow> (\<exists>n'. find (\<lambda>c. tag c = name) cs' = Some n' \<and> same_shape n n'))"
  by (induction rule: list_all2_induct) (auto simp: same_shape_def split: option.splits)

lemma loop_body_skipped:
  assumes shape: "list_all2 same_shape cs cs'"
    and page: "is_page (Element t x cs)"
    and skip: "skipped_page (Element t x cs)"
  shows "loop_body (Element t x cs') = (clear (Element t x cs'), Continue)"
proof -
  define namespace where "namespace = take (length t - 4) t"
  from skip obtain n where n: "find (\<lambda>c. tag c = namespace @ ''ns'') cs = Some n"
    and n0: "etext n \<noteq> Some ''0'' \<or> find (\<lambda>c. tag c = namespace @ ''redirect'') cs \<noteq> None"
    by (auto simp: skipped_page_def find_child_def namespace_def Let_def split: option.splits)
  from find_same_shape [OF shape, of "namespace @ ''ns''"] n
  obtain n' where n': "find (\<lambda>c. tag c = namespace @ ''ns'') cs' = Some n'"
    and sh: "same_shape n n'"
    by auto
  have "tag n = namespace @ ''ns''" using n by (auto dest: find_Some_iff [THEN iffD1])
  then have "\<not> is_page n" by (simp add: is_page_def not_endswith_page)
  with sh have t: "etext n' = etext n" by (simp add: same_shape_def)
  have r: "find (\<lambda>c. tag c = namespace @ ''redirect'') cs \<noteq> None \<Longrightarrow>
           find (\<lambda>c. tag c = namespace @ ''redirect'') cs' \<noteq> None"
    using find_same_shape [OF shape, of "namespace @ ''redirect''"] by (auto split: option.splits)
  show ?thesis
    using page n' t n0 r
    by (auto simp: loop_body_def is_page_def text_of_def find_child_def namespace_def [symmetric] Let_def)
qed

lemma iterparse_skips:
  "(\<forall>p \<in> set (elements e). is_page p \<longrightarrow> skipped_page p) \<Longrightarrow>
     \<exists>e'. iterparse e = (e', [], None) \<and> same_shape e e'"
  "(\<forall>c \<in> set cs. \<forall>p \<in> set (elements c). is_page p \<longrightarrow> skipped_page p) \<Longrightarrow>
     \<exists>cs'. iterparse_list cs = (cs', [], None) \<and> list_all2 same_shape cs cs'"
proof (induction e and cs rule: iterparse_iterparse_list.induct)
  case (1 t x cs)
  then obtain cs' where cs': "iterparse_list cs = (cs', [], None)"
    and shape: "list_all2 same_shape cs cs'"
    by auto
  show ?case
  proof (cases "is_page (Element t x cs)")
    case True
    with 1(2) have "skipped_page (Element t x cs)" by simp
    from loop_body_skipped [OF shape True this] cs' True show ?thesis
      by (simp add: clear_def same_shape_def)
  next
    case False
    then have "loop_body (Element t x cs') = (Element t x cs', Continue)"
      by (simp add: loop_body_def is_page_def)
    with cs' show ?thesis by (simp add: same_shape_def)
  qed
next
  case 2
  show ?case by simp
next
  case (3 c cs)
  from 3(1) 3(3) obtain c' where c': "iterparse c = (c', [], None)" and sc: "same_shape c c'"
    by auto
  from 3(2) [OF c' [symmetric] refl] 3(3)
  obtain cs' where cs': "iterparse_list cs = (cs', [], None)"
    and shape: "list_all2 same_shape cs cs'"
    by auto
  show ?case using c' sc cs' shape by simp
qed

text \<open>
  C6. For every stream all of whose page elements are outside the main namespace (their
  \<open>ns\<close> field is not \<open>"0"\<close>) or carry a redirect marker, \<open>_extract_content\<close> yields
  nothing, and ends without an exception.
\<close>

theorem extract_content_no_articles:
  "\<forall>s \<in> set stream. \<forall>p \<in> set (elements s). is_page p \<longrightarrow> skipped_page p \<Longrightarrow>
   extract_content stream = ([], None)"
proof -
  assume h: "\<forall>s \<in> set stream. \<forall>p \<in> set (elements s). is_page p \<longrightarrow> skipped_page p"
  have "\<not> is_page (Element ''mediawiki'' None stream)"
    by (simp add: is_page_def endswith_def)
  with h have "\<forall>p \<in> set (elements (Element ''mediawiki'' None stream)). is_page p \<longrightarrow> skipped_page p"
    by auto
  from iterparse_skips(1) [OF this] show ?thesis
    by (auto simp: extract_content_def)
qed

theorem extract_content_no_articles_witness:
  "skipped_page (page ''1'' False ''12'' ''Talk:A'' (Some ''talk'')) \<and>
   skipped_page (page ''0'' True ''13'' ''B'' (Some ''#REDIRECT [[A]]'')) \<and>
   extract_content [page ''1'' False ''12'' ''Talk:A'' (Some ''talk''),
                    page ''0'' True ''13'' ''B'' (Some ''#REDIRECT [[A]]'')] = ([], None)"
proof -
  have s: "skipped_page (page ''1'' False ''12'' ''Talk:A'' (Some ''talk''))"
    "skipped_page (page ''0'' True ''13'' ''B'' (Some ''#REDIRECT [[A]]''))"
    by (simp_all add: skipped_page_def page_def find_child_def)
  have "\<forall>s \<in> set [page ''1'' False ''12'' ''Talk:A'' (Some ''talk''),
                     page ''0'' True ''13'' ''B'' (Some ''#REDIRECT [[A]]'')].
          \<forall>p \<in> set (elements s). is_page p \<longrightarrow> skipped_page p"
    by (simp add: page_def is_page_def endswith_def skipped_page_def find_child_def)
  from extract_content_no_articles [OF this] s show ?thesis by simp
qed

lemma find_grandchild_filled:
  assumes "text_filled elem" "find_grandchild a b elem = Some g"
  shows "etext g \<noteq> Some []"
proof -
  from assms(2) obtain rest where "concat (map (\<lambda>c. filter (\<lambda>g. tag g = b) (children c))
      (filter (\<lambda>c. tag c = a) (children elem))) = g # rest"
    by (auto simp: find_grandchild_def split: list.splits)
  then have "g \<in> set (concat (map (\<lambda>c. filter (\<lambda>g. tag g = b) (children c))
      (filter (\<lambda>c. tag c = a) (children elem))))"
    by (metis list.set_intros(1))
  then obtain c where "c \<in> set (children elem)" "g \<in> set (children c)" by auto
  with assms(1) have "text_filled g" by (cases elem; cases c) auto
  then show ?thesis by (cases g) auto
qed

lemma loop_body_filled:
  assumes "text_filled elem" "loop_body elem = (elem', out)"
  shows "text_filled elem' \<and> (\<forall>i t raw. out = Yield (i, t, raw) \<longrightarrow> raw \<noteq> [])"
proof -
  have c: "text_filled (clear elem)" by (simp add: clear_def)
  show ?thesis
    using assms c find_grandchild_filled [OF assms(1)]
    by (auto simp: loop_body_def Let_def text_of_def split: if_splits sum.splits option.splits)
qed

lemma iterparse_filled:
  "text_filled e \<Longrightarrow> iterparse e = (e', ys, err) \<Longrightarrow>
     text_filled e' \<and> (\<forall>(i, t, raw) \<in> set ys. raw \<noteq> [])"
  "(\<forall>c \<in> set cs. text_filled c) \<Longrightarrow> iterparse_list cs = (cs', ys, err) \<Longrightarrow>
     (\<forall>c \<in> set cs'. text_filled c) \<and> (\<forall>(i, t, raw) \<in> set ys. raw \<noteq> [])"
proof (induction e and cs arbitrary: e' ys err and cs' ys err rule: iterparse_iterparse_list.induct)
  case (1 t x cs)
  obtain cs1 ys1 err1 where l: "iterparse_list cs = (cs1, ys1, err1)"
    by (cases "iterparse_list cs") auto
  from 1(2) have "\<forall>c \<in> set cs. text_filled c" and x: "x \<noteq> Some []" by auto
  from 1(1) [OF this(1) l] have f1: "\<forall>c \<in> set cs1. text_filled c"
    and y1: "\<forall>(i, t, raw) \<in> set ys1. raw \<noteq> []"
    by auto
  from f1 x have f: "text_filled (Element t x cs1)" by simp
  show ?case
  proof (cases err1)
    case (Some e)
    with 1(3) l f y1 show ?thesis by auto
  next
    case None
    obtain elem out where b: "loop_body (Element t x cs1) = (elem, out)"
      by (cases "loop_body (Element t x cs1)") auto
    from loop_body_filled [OF f b] 1(3) l None b y1 show ?thesis
      by (cases out) auto
  qed
next
  case 2
  then show ?case by simp
next
  case (3 c cs)
  obtain c1 ys1 err1 where i: "iterparse c = (c1, ys1, err1)"
    by (cases "iterparse c") auto
  from 3(3) have fc: "text_filled c" and fcs: "\<forall>c \<in> set cs. text_filled c" by auto
  from 3(1) [OF fc i] have f1: "text_filled c1" and y1: "\<forall>(i, t, raw) \<in> set ys1. raw \<noteq> []"
    by auto
  show ?case
  proof (cases err1)
    case (Some e)
    with 3(4) i f1 y1 fcs show ?thesis by auto
  next
    case None
    obtain cs2 ys2 err2 where l: "iterparse_list cs = (cs2, ys2, err2)"
      by (cases "iterparse_list cs") auto
    from 3(2) [OF i [symmetric] refl None fcs l] have "(\<forall>c \<in> set cs2. text_filled c) \<and> (\<forall>(i, t, raw) \<in> set ys2. raw \<noteq> [])"
      by auto
    with 3(4) i None l f1 y1 show ?thesis by auto
  qed
qed

lemma loop_body_yield:
  assumes "snd (loop_body elem) = Yield (i, t, raw)"
  shows "\<exists>g. find_grandchild (take (length (tag elem) - 4) (tag elem) @ ''revision'')
               (take (length (tag elem) - 4) (tag elem) @ ''text'') elem = Some g \<and>
             etext g = Some raw"
  using assms
  by (auto simp: loop_body_def Let_def text_of_def split: if_splits sum.splits option.splits)

text \<open>
  C4. Every article \<open>_extract_content\<close> yields has a non-empty raw markup: the markup is
  the text of the page's \<open>revision/text\<close> element, a page whose text is \<open>None\<close> is
  passed over before the \<open>yield\<close>, and a text that is present is not empty.
\<close>

theorem extract_content_nonempty_markup:
  "(snd (loop_body elem) = Yield (i, t, raw) \<longrightarrow>
      (\<exists>g. find_grandchild (take (length (tag elem) - 4) (tag elem) @ ''revision'')
              (take (length (tag elem) - 4) (tag elem) @ ''text'') elem = Some g \<and>
            etext g = Some raw)) \<and>
   ((\<forall>s \<in> set stream. text_filled s) \<longrightarrow>
      (\<forall>(i, t, raw_markup) \<in> set (fst (extract_content stream)). raw_markup \<noteq> []))"
proof (intro conjI impI)
  assume "snd (loop_body elem) = Yield (i, t, raw)"
  then show "\<exists>g. find_grandchild (take (length (tag elem) - 4) (tag elem) @ ''revision'')
              (take (length (tag elem) - 4) (tag elem) @ ''text'') elem = Some g \<and>
            etext g = Some raw"
    by (rule loop_body_yield)
next
  assume "\<forall>s \<in> set stream. text_filled s"
  then have f: "text_filled (Element ''mediawiki'' None stream)" by simp
  obtain e' ys err where i: "iterparse (Element ''mediawiki'' None stream) = (e', ys, err)"
    by (cases "iterparse (Element ''mediawiki'' None stream)") auto
  from iterparse_filled(1) [OF f i] i
  show "\<forall>(i, t, raw_markup) \<in> set (fst (extract_content stream)). raw_markup \<noteq> []"
    by (simp add: extract_content_def)
qed

theorem extract_content_nonempty_markup_witness:
  "text_filled (page ''0'' False ''1'' ''A'' (Some ''hello'')) \<and>
   text_filled (page ''0'' False ''4'' ''C'' None) \<and>
   (\<exists>i t raw_markup.
      fst (extract_content [page ''0'' False ''1'' ''A'' (Some ''hello''),
                            page ''0'' False ''4'' ''C'' None]) = [(i, t, raw_markup)] \<and>
      raw_markup \<noteq> [])"
proof -
  let ?stream = "[page ''0'' False ''1'' ''A'' (Some ''hello''), page ''0'' False ''4'' ''C'' None]"
  have f: "text_filled (page ''0'' False ''1'' ''A'' (Some ''hello''))"
    "text_filled (page ''0'' False ''4'' ''C'' None)"
    by (simp_all add: page_def)
  then have h: "\<forall>s \<in> set ?stream. text_filled s" by simp
  have e: "fst (extract_content ?stream) = [(Some ''1'', Some ''A'', ''hello'')]"
    by (simp add: extract_content_def page_def loop_body_def endswith_def find_child_def
        find_grandchild_def text_of_def clear_def)
  from extract_content_nonempty_markup [of _ _ _ _ ?stream] h
  have "\<forall>(i, t, raw_markup) \<in> set (fst (extract_content ?stream)). raw_markup \<noteq> []"
    by blast
  with e f show ?thesis by simp
qed

section \<open>Properties of the article URL\<close>

lemma hex_upper_table:
  "list_all (\<lambda>n. hex_value (hex_upper n) = Some n \<and> hex_upper n \<noteq> CHR ''/'') [0..<16]"
  by code_simp

lemma hex_upper_value:
  assumes "n < 16"
  shows "hex_value (hex_upper n) = Some n"
proof -
  from assms have "n \<in> set [0..<16]" by simp
  with hex_upper_table show ?thesis unfolding list_all_iff by blast
qed

lemma hex_upper_not_slash:
  assumes "n < 16"
  shows "hex_upper n \<noteq> CHR ''/''"
proof -
  from assms have "n \<in> set [0..<16]" by simp
  with hex_upper_table show ?thesis unfolding list_all_iff by blast
qed

lemma of_char_div_16: "(of_char b :: nat) div 16 < 16"
proof -
  have "(of_char b :: nat) < 256" by simp
  then show ?thesis by arith
qed

lemma unquote_to_bytes_plain:
  "c \<noteq> CHR ''%'' \<Longrightarrow> unquote_to_bytes (c # s) = c # unquote_to_bytes s"
proof (cases s)
  case Nil
  then show ?thesis by simp
next
  case (Cons a s')
  assume "c \<noteq> CHR ''%''"
  then show ?thesis using Cons by (cases s') simp_all
qed

lemma unquote_to_bytes_escape:
  "hex_value a = Some h \<Longrightarrow> hex_value b = Some l \<Longrightarrow>
   unquote_to_bytes (CHR ''%'' # a # b # s) = char_of (16 * h + l) # unquote_to_bytes s"
  by simp

lemma unquote_quote_byte:
  "CHR ''%'' \<notin> set safe \<Longrightarrow>
   unquote_to_bytes (quote_byte safe b @ s) = b # unquote_to_bytes s"
proof (cases "b \<in> set (always_safe @ safe)")
  case True
  assume "CHR ''%'' \<notin> set safe"
  with True have "b \<noteq> CHR ''%''" by (auto simp: always_safe_def)
  with True show ?thesis by (simp add: quote_byte_def unquote_to_bytes_plain)
next
  case False
  have "16 * ((of_char b :: nat) div 16) + of_char b mod 16 = of_char b" by simp
  with False show ?thesis
    using unquote_to_bytes_escape [OF hex_upper_value [OF of_char_div_16 [of b]]
        hex_upper_value [of "of_char b mod 16"], of s]
    by (simp add: quote_byte_def)
qed

lemma unquote_quote_from_bytes:
  "CHR ''%'' \<notin> set safe \<Longrightarrow> unquote_to_bytes (quote_from_bytes bs safe) = bs"
  by (induction bs) (simp_all add: quote_from_bytes_def unquote_quote_byte)

lemma decode_utf8_char: "decode_utf8 (utf8 c @ bs) = map_option ((#) c) (decode_utf8 bs)"
proof (cases "(of_char c :: nat) < 128")
  case True
  then show ?thesis by (simp add: utf8_def)
next
  case False
  let ?n = "of_char c :: nat"
  have n: "128 \<le> ?n" "?n < 256" using False by simp_all
  then have d: "?n div 64 = 2 \<or> ?n div 64 = 3" by arith
  have lead: "(192 + ?n div 64) mod 256 = 192 + ?n div 64" using d by auto
  have cont: "(128 + ?n mod 64) mod 256 = 128 + ?n mod 64" by simp
  have orig: "(192 + ?n div 64 - 192) * 64 + (128 + ?n mod 64 - 128) = ?n" by simp
  show ?thesis using False d by (auto simp: utf8_def Let_def lead orig)
qed

lemma decode_encode_utf8: "decode_utf8 (encode_utf8 s) = Some s"
  by (induction s) (simp_all add: encode_utf8_def decode_utf8_char)

lemma unquote_quote: "unquote (quote title) = Some title"
  by (simp add: unquote_def quote_def unquote_quote_from_bytes decode_encode_utf8)

lemma utf8_no_slash: "CHR ''/'' \<in> set (utf8 c) \<Longrightarrow> c = CHR ''/''"
proof (cases "(of_char c :: nat) < 128")
  case True
  assume "CHR ''/'' \<in> set (utf8 c)"
  with True show ?thesis by (simp add: utf8_def)
next
  assume slash: "CHR ''/'' \<in> set (utf8 c)"
  case False
  let ?n = "of_char c :: nat"
  have n: "128 \<le> ?n" "?n < 256" using False by simp_all
  then have d: "?n div 64 = 2 \<or> ?n div 64 = 3" by arith
  have a: "char_of (192 + ?n div 64) \<noteq> CHR ''/''"
  proof
    assume "char_of (192 + ?n div 64) = CHR ''/''"
    then have "(of_char (char_of (192 + ?n div 64)) :: nat) = of_char (CHR ''/'')" by simp
    then show False using d by auto
  qed
  have b: "char_of (128 + ?n mod 64) \<noteq> CHR ''/''"
  proof
    assume "char_of (128 + ?n mod 64) = CHR ''/''"
    then have "(of_char (char_of (128 + ?n mod 64)) :: nat) = of_char (CHR ''/'')" by simp
    then show False by simp
  qed
  show ?thesis using False a b slash by (simp add: utf8_def Let_def)
qed

lemma quote_byte_no_slash: "CHR ''/'' \<in> set (quote_byte safe b) \<Longrightarrow> b = CHR ''/''"
  using hex_upper_not_slash [OF of_char_div_16 [of b]] hex_upper_not_slash [of "of_char b mod 16"]
  by (auto simp: quote_byte_def split: if_splits)

lemma quote_no_slash: "CHR ''/'' \<notin> set title \<Longrightarrow> CHR ''/'' \<notin> set (quote title)"
proof -
  assume t: "CHR ''/'' \<notin> set title"
  then have "CHR ''/'' \<notin> set (encode_utf8 title)"
    by (induction title) (auto simp: encode_utf8_def dest: utf8_no_slash)
  then show ?thesis
    unfolding quote_def quote_from_bytes_def
    by (induction "encode_utf8 title") (auto dest: quote_byte_no_slash)
qed

lemma last_segment_append:
  "CHR ''/'' \<notin> set q \<Longrightarrow> last_segment (p @ ''/'' @ q) = q"
proof -
  assume "CHR ''/'' \<notin> set q"
  then have "takeWhile (\<lambda>c. c \<noteq> CHR ''/'') (rev q @ CHR ''/'' # rev p) = rev q"
    by (subst takeWhile_append2) auto
  then show ?thesis by (simp add: last_segment_def)
qed

text \<open>
  C7 as stated fails: the slash is a safe character of \<open>quote\<close>, so a title with a
  slash spans several path segments, and decoding the final one returns only the part
  of the title after its last slash.
\<close>

theorem last_segment_counterexample:
  "unquote (last_segment (construct_url ''A/B'' ''en'')) = Some ''B'' \<and>
   unquote (last_segment (construct_url ''A/B'' ''en'')) \<noteq> Some ''A/B''"
  by (simp add: construct_url_def quote_def quote_from_bytes_def encode_utf8_def utf8_def
      quote_byte_def always_safe_def last_segment_def unquote_def)

text \<open>
  C7, amended. For every title and language, percent-decoding what follows
  \<open>https://<language>.wikisource.org/wiki/\<close> in the URL returns the title; when the
  title has no slash, this is the final path segment of the URL.
\<close>

theorem construct_url_roundtrip:
  "unquote (drop (length (''https://'' @ language @ ''.wikisource.org/wiki/''))
      (construct_url title language)) = Some title \<and>
   (CHR ''/'' \<notin> set title \<longrightarrow>
      unquote (last_segment (construct_url title language)) = Some title)"
proof (intro conjI impI)
  show "unquote (drop (length (''https://'' @ language @ ''.wikisource.org/wiki/''))
      (construct_url title language)) = Some title"
    by (simp add: construct_url_def unquote_quote)
next
  assume "CHR ''/'' \<notin> set title"
  then have q: "CHR ''/'' \<notin> set (quote title)" by (rule quote_no_slash)
  have "construct_url title language
        = (''https://'' @ language @ ''.wikisource.org/wiki'') @ ''/'' @ quote title"
    by (simp add: construct_url_def)
  moreover have "last_segment ((''https://'' @ language @ ''.wikisource.org/wiki'') @ ''/'' @ quote title)
        = quote title"
    by (rule last_segment_append [OF q])
  ultimately have "last_segment (construct_url title language) = quote title"
    by (simp only:)
  then show "unquote (last_segment (construct_url title language)) = Some title"
    by (simp add: unquote_quote)
qed

theorem construct_url_roundtrip_witness:
  "CHR ''/'' \<notin> set ''Main Page'' \<and>
   unquote (last_segment (construct_url ''Main Page'' ''en'')) = Some ''Main Page''"
proof -
  have h: "CHR ''/'' \<notin> set ''Main Page''" by simp
  with construct_url_roundtrip [of "''en''" "''Main Page''"] show ?thesis by blast
qed

section \<open>Properties of the cleaner\<close>

lemmas cleaner_defs =
  parse_and_clean_wikicode_def clean_wikicode_def section_text_def filter_section_def
  snapshot_iter_def rm_wikilink_def rm_tag_def is_category_def media_prefixes_def cat_prefixes_def
  re_prefix_match_def re_prefix_sub_def rewritten_text_def display_text_def lower_def
  py_strip_def isspace_def strip_newlines_def collapse.simps re_sub_magic.simps match_magic_def
  isupper_ascii_def no_aliases_def parse_text_parser text_nodes_def is_heading_def
  clean_wikilink_def try_replace_obj_def then_do_def try_option_def

lemma filter_section_text: "filter_section tables library language [Text s] = Inr [Text s]"
  by (simp add: filter_section_def snapshot_iter_def rm_wikilink_def rm_tag_def then_do_def)

subsection \<open>Magic words\<close>

lemma not_upper_underscore: "\<not> isupper_ascii CHR ''_''"
  by (simp add: isupper_ascii_def)

lemma match_magic_iff:
  "match_magic s = Some rest \<longleftrightarrow>
   (\<exists>word. list_all isupper_ascii word \<and> s = ''__'' @ word @ ''__'' @ rest)"
proof
  assume m: "match_magic s = Some rest"
  then obtain t where s: "s = CHR ''_'' # CHR ''_'' # t"
    by (auto simp: match_magic_def split: list.splits if_splits)
  with m have d: "dropWhile isupper_ascii t = CHR ''_'' # CHR ''_'' # rest"
    by (auto simp: match_magic_def split: list.splits if_splits)
  have "t = takeWhile isupper_ascii t @ dropWhile isupper_ascii t" by simp
  with d have "t = takeWhile isupper_ascii t @ ''__'' @ rest" by simp
  moreover have "list_all isupper_ascii (takeWhile isupper_ascii t)"
    by (auto simp: list_all_iff dest: set_takeWhileD)
  ultimately show "\<exists>word. list_all isupper_ascii word \<and> s = ''__'' @ word @ ''__'' @ rest"
    using s by auto
next
  assume "\<exists>word. list_all isupper_ascii word \<and> s = ''__'' @ word @ ''__'' @ rest"
  then obtain word where w: "list_all isupper_ascii word"
    and s: "s = ''__'' @ word @ ''__'' @ rest"
    by blast
  from w have "dropWhile isupper_ascii (word @ ''__'' @ rest) = ''__'' @ rest"
    by (simp add: dropWhile_append3 not_upper_underscore list_all_iff)
  with s show "match_magic s = Some rest"
    by (simp add: match_magic_def)
qed

lemma re_sub_magic_match: "match_magic s = Some rest \<Longrightarrow> re_sub_magic s = re_sub_magic rest"
  by (subst re_sub_magic.simps) simp

lemma re_sub_magic_no_match:
  "match_magic (c # cs) = None \<Longrightarrow> re_sub_magic (c # cs) = c # re_sub_magic cs"
  by (subst re_sub_magic.simps) simp

lemma re_sub_magic_Nil: "re_sub_magic [] = []"
  by (subst re_sub_magic.simps) (simp add: match_magic_def)

lemma re_sub_magic_id: "\<not> has_magic s \<Longrightarrow> re_sub_magic s = s"
  by (induction s) (simp_all add: re_sub_magic_Nil re_sub_magic_no_match)

lemma re_sub_magic_piece:
  "\<forall>k < length piece. match_magic (drop k (piece @ rest)) = None \<Longrightarrow>
   re_sub_magic (piece @ rest) = piece @ re_sub_magic rest"
proof (induction piece)
  case Nil
  show ?case by simp
next
  case (Cons c piece)
  from Cons.prems have "match_magic (drop 0 ((c # piece) @ rest)) = None" by blast
  then have 0: "match_magic (c # piece @ rest) = None" by simp
  have "\<forall>k < length piece. match_magic (drop k (piece @ rest)) = None"
  proof (intro allI impI)
    fix k assume "k < length piece"
    then have "Suc k < length (c # piece)" by simp
    with Cons.prems have "match_magic (drop (Suc k) ((c # piece) @ rest)) = None" by blast
    then show "match_magic (drop k (piece @ rest)) = None" by simp
  qed
  with Cons.IH 0 show ?case by (simp add: re_sub_magic_no_match)
qed

lemma re_sub_magic_scanned:
  "scanned pieces final \<Longrightarrow> re_sub_magic (assemble pieces final) = kept_text pieces final"
proof (induction pieces final rule: scanned.induct)
  case (1 final)
  then show ?case by (simp add: re_sub_magic_id)
next
  case (2 piece word rest final)
  let ?tail = "assemble rest final"
  from 2(2) have w: "list_all isupper_ascii word"
    and p: "\<forall>k < length piece. match_magic (drop k (piece @ ''__'' @ word @ ''__'' @ ?tail)) = None"
    and r: "scanned rest final"
    by (auto simp: list_all_iff)
  have "match_magic (''__'' @ word @ ''__'' @ ?tail) = Some ?tail"
    using w unfolding match_magic_iff by blast
  then have "re_sub_magic (''__'' @ word @ ''__'' @ ?tail) = re_sub_magic ?tail"
    by (rule re_sub_magic_match)
  with re_sub_magic_piece [OF p] 2(1) [OF r] show ?case by simp
qed

lemma scanned_exists: "\<exists>pieces final. s = assemble pieces final \<and> scanned pieces final"
proof (induction s rule: re_sub_magic.induct)
  case (1 s)
  show ?case
  proof (cases "match_magic s")
    case (Some rest)
    then obtain word where w: "list_all isupper_ascii word"
      and s: "s = ''__'' @ word @ ''__'' @ rest"
      unfolding match_magic_iff by blast
    from 1(2) [OF Some] obtain pieces final where
      r: "rest = assemble pieces final" and sc: "scanned pieces final"
      by blast
    have "s = assemble (([], word) # pieces) final" using s r by simp
    moreover have "scanned (([], word) # pieces) final" using w sc by simp
    ultimately show ?thesis by blast
  next
    case None
    show ?thesis
    proof (cases s)
      case Nil
      then have "s = assemble [] []" "scanned [] []" by simp_all
      then show ?thesis by blast
    next
      case (Cons c cs)
      from 1(1) [OF None Cons] obtain pieces final where
        r: "cs = assemble pieces final" and sc: "scanned pieces final"
        by blast
      show ?thesis
      proof (cases pieces)
        case Nil
        with r sc None Cons have "s = assemble [] (c # final)" "scanned [] (c # final)"
          by simp_all
        then show ?thesis by blast
      next
        case (Cons pw rest)
        obtain piece word where pw: "pw = (piece, word)" by (cases pw)
        let ?tail = "''__'' @ word @ ''__'' @ assemble rest final"
        from r Cons pw have cs: "cs = piece @ ?tail" by simp
        from sc Cons pw have w: "list_all isupper_ascii word"
          and p: "\<forall>k < length piece. match_magic (drop k (piece @ ?tail)) = None"
          and sr: "scanned rest final"
          by (auto simp: list_all_iff)
        have "\<forall>k < length (c # piece). match_magic (drop k ((c # piece) @ ?tail)) = None"
        proof (intro allI impI)
          fix k assume k: "k < length (c # piece)"
          show "match_magic (drop k ((c # piece) @ ?tail)) = None"
          proof (cases k)
            case 0
            with None \<open>s = c # cs\<close> cs show ?thesis by simp
          next
            case (Suc j)
            with k p show ?thesis by simp
          qed
        qed
        then have "scanned ((c # piece, word) # rest) final"
          using w sr by (simp add: list_all_iff)
        moreover have "s = assemble ((c # piece, word) # rest) final"
          using \<open>s = c # cs\<close> cs by simp
        ultimately show ?thesis by blast
      qed
    qed
  qed
qed

text \<open>
  C9 as stated fails. \<open>re.sub\<close> makes one scan from the left and goes on after a match,
  so a magic word that starts inside a match is not seen. In \<open>___X___X__\<close> the scan
  deletes the \<open>__X__\<close> that starts at the second character; its last underscore is the
  first underscore of the \<open>__X__\<close> that starts at the sixth character, which stays. The
  section text is \<open>__X__\<close>, itself two underscores, an upper-case letter and two
  underscores.
\<close>

theorem magic_word_left_counterexample:
  "match_magic (drop 5 ''___X___X__'') = Some [] \<and>
   section_text no_aliases text_parser ''en'' [Text ''___X___X__''] = Inr ''__X__'' \<and>
   match_magic ''__X__'' = Some []"
  by (simp add: cleaner_defs)

text \<open>
  C9, amended. The pattern \<open>__[A-Z]*__\<close> allows a word of no letters: a match is two
  underscores, any number of upper-case ASCII letters (none included) and two
  underscores. Every text is cut by the scan into pieces with a magic word after each
  and a final part, where no match starts inside a piece or in the final part. For
  every section, when the stripped text of the section after the two loops is cut in
  this way, the text appended for the section is the pieces and the final part put
  together: every magic word of the cut is deleted, whatever stands before or after
  it, and nothing else is. The text of four underscores is cut into one magic word of
  no letters, and an empty text is appended for it.
\<close>

theorem section_text_magic_words:
  "(match_magic s = Some rest \<longleftrightarrow>
      (\<exists>word. list_all isupper_ascii word \<and> s = ''__'' @ word @ ''__'' @ rest)) \<and>
   (\<exists>pieces final. s = assemble pieces final \<and> scanned pieces final) \<and>
   (filter_section tables library language section = Inr section2 \<and>
    py_strip (strip_code section2) = assemble pieces final \<and> scanned pieces final
      \<longrightarrow> section_text tables library language section = Inr (kept_text pieces final)) \<and>
   section_text tables library language [Text ''____''] = Inr []"
proof (intro conjI impI)
  show "match_magic s = Some rest \<longleftrightarrow>
      (\<exists>word. list_all isupper_ascii word \<and> s = ''__'' @ word @ ''__'' @ rest)"
    by (rule match_magic_iff)
next
  show "\<exists>pieces final. s = assemble pieces final \<and> scanned pieces final"
    by (rule scanned_exists)
next
  assume "filter_section tables library language section = Inr section2 \<and>
    py_strip (strip_code section2) = assemble pieces final \<and> scanned pieces final"
  then show "section_text tables library language section = Inr (kept_text pieces final)"
    by (simp add: section_text_def then_do_def re_sub_magic_scanned)
next
  have "py_strip (strip_code [Text ''____'']) = assemble [([], [])] []"
    by (simp add: py_strip_def isspace_def strip_newlines_def collapse.simps)
  moreover have "scanned [([], [])] []" by simp
  ultimately show "section_text tables library language [Text ''____''] = Inr []"
    using re_sub_magic_scanned [of "[([], [])]" "[]"]
    by (simp add: section_text_def then_do_def filter_section_text)
qed

theorem section_text_magic_words_witness:
  "filter_section no_aliases text_parser ''en'' [Text ''A____ b __TOC__ c'']
     = Inr [Text ''A____ b __TOC__ c''] \<and>
   py_strip (strip_code [Text ''A____ b __TOC__ c''])
     = assemble [(''A'', []), ('' b '', ''TOC'')] '' c'' \<and>
   scanned [(''A'', []), ('' b '', ''TOC'')] '' c'' \<and>
   section_text no_aliases text_parser ''en'' [Text ''A____ b __TOC__ c''] = Inr ''A b  c''"
proof -
  have f: "filter_section no_aliases text_parser ''en'' [Text ''A____ b __TOC__ c'']
      = Inr [Text ''A____ b __TOC__ c'']"
    by (rule filter_section_text)
  have p: "py_strip (strip_code [Text ''A____ b __TOC__ c''])
      = assemble [(''A'', []), ('' b '', ''TOC'')] '' c''"
    by (simp add: py_strip_def isspace_def strip_newlines_def collapse.simps)
  have s: "scanned [(''A'', []), ('' b '', ''TOC'')] '' c''"
    by code_simp
  from section_text_magic_words
    [of _ _ no_aliases text_parser "''en''" "[Text ''A____ b __TOC__ c'']"
        "[Text ''A____ b __TOC__ c'']" "[(''A'', []), ('' b '', ''TOC'')]" "'' c''"] f p s
  have "section_text no_aliases text_parser ''en'' [Text ''A____ b __TOC__ c'']
      = Inr (kept_text [(''A'', []), ('' b '', ''TOC'')] '' c'')"
    by blast
  with f p s show ?thesis by simp
qed

subsection \<open>What \<open>_clean_content\<close> yields\<close>



text \<open>
  C10. Whenever \<open>_clean_content\<close> yields a record for a raw article, the key and the
  \<open>id\<close> field are the id of the article and the \<open>title\<close> field is its title, unchanged.
\<close>

theorem clean_content_keeps_id_title:
  "clean_content tables library (ident, title, raw_content) language min_text_length = Inr out \<Longrightarrow>
   \<forall>(key, article) \<in> set out. key = ident \<and> art_id article = ident \<and> art_title article = title"
  by (auto simp: clean_content_def split: sum.splits if_splits)

theorem clean_content_keeps_id_title_witness:
  "(\<exists>key article.
      clean_content no_aliases text_parser (''7'', ''Greeting'', ''Hello world'') ''en'' 5
        = Inr [(key, article)] \<and>
      key = ''7'' \<and> art_id article = ''7'' \<and> art_title article = ''Greeting'')"
proof -
  have c: "clean_wikicode no_aliases text_parser ''en'' [Text ''Hello world''] = Inr ''Hello world''"
    by (simp add: cleaner_defs)
  have e: "clean_content no_aliases text_parser (''7'', ''Greeting'', ''Hello world'') ''en'' 5
      = Inr [(''7'', \<lparr>art_id = ''7'', art_url = construct_url ''Greeting'' ''en'',
                      art_title = ''Greeting'', art_text = ''Hello world''\<rparr>)]"
    by (simp add: clean_content_def parse_and_clean_wikicode_def parse_text_parser text_nodes_def
        then_do_def c)
  from clean_content_keeps_id_title [OF e] e show ?thesis by simp
qed

subsection \<open>Cleaning a cleaned text again\<close>

lemma dropWhile_same_length: "length (dropWhile P xs) = length xs \<Longrightarrow> dropWhile P xs = xs"
proof -
  assume l: "length (dropWhile P xs) = length xs"
  have "length (takeWhile P xs) + length (dropWhile P xs) = length xs"
    by (metis length_append takeWhile_dropWhile_id)
  with l have "takeWhile P xs = []" by simp
  then show ?thesis by (metis append_Nil takeWhile_dropWhile_id)
qed

lemma py_strip_fixed_ends:
  assumes "py_strip s = s"
  shows "dropWhile isspace s = s" and "dropWhile isspace (rev s) = rev s"
proof -
  have "length s = length (dropWhile isspace (rev (dropWhile isspace s)))"
    using arg_cong [OF assms, of length] by (simp add: py_strip_def)
  also have "\<dots> \<le> length (rev (dropWhile isspace s))" by (rule length_dropWhile_le)
  finally have "length s \<le> length (dropWhile isspace s)" by simp
  moreover have "length (dropWhile isspace s) \<le> length s" by (rule length_dropWhile_le)
  ultimately show a: "dropWhile isspace s = s" by (intro dropWhile_same_length) simp
  from assms have "rev (dropWhile isspace (rev s)) = s" by (simp add: py_strip_def a)
  then have "rev (rev (dropWhile isspace (rev s))) = rev s" by (rule arg_cong)
  then show "dropWhile isspace (rev s) = rev s" by simp
qed

lemma dropWhile_weaker:
  assumes "dropWhile P xs = xs" "\<And>x. Q x \<Longrightarrow> P x"
  shows "dropWhile Q xs = xs"
proof -
  from assms(1) have "xs = [] \<or> \<not> P (hd xs)" by (simp add: dropWhile_eq_self_iff)
  with assms(2) have "xs = [] \<or> \<not> Q (hd xs)" by blast
  then show ?thesis by (simp add: dropWhile_eq_self_iff)
qed

lemma py_strip_fixed_newlines: "py_strip s = s \<Longrightarrow> strip_newlines s = s"
proof -
  assume s: "py_strip s = s"
  have nl: "\<And>c. c = CHR 0x0A \<Longrightarrow> isspace c" by (simp add: isspace_def)
  from py_strip_fixed_ends [OF s]
  have "dropWhile (\<lambda>c. c = CHR 0x0A) s = s" "dropWhile (\<lambda>c. c = CHR 0x0A) (rev s) = rev s"
    using nl by (auto intro: dropWhile_weaker)
  then show ?thesis by (simp add: strip_newlines_def)
qed

lemma collapse_id: "\<not> has_blank_run s \<Longrightarrow> collapse s = s"
  by (subst collapse.simps) simp

lemma section_text_plain:
  assumes "py_strip s = s" "\<not> has_blank_run s" "\<not> has_magic s"
  shows "section_text tables library language [Text s] = Inr s"
proof -
  have "strip_code [Text s] = s"
  proof (cases "s = []")
    case True
    then show ?thesis by (simp add: strip_newlines_def collapse_id)
  next
    case False
    with assms show ?thesis by (simp add: py_strip_fixed_newlines collapse_id)
  qed
  then show ?thesis
    using assms by (simp add: section_text_def then_do_def filter_section_text re_sub_magic_id)
qed

lemma section_text_empty: "section_text tables library language [] = Inr []"
  by (simp add: section_text_def filter_section_def snapshot_iter_def strip_newlines_def
      collapse_id py_strip_def re_sub_magic_Nil then_do_def)

text \<open>
  C8 as stated fails. The white space is stripped before the magic words are removed,
  so \<open>a __NOTOC__\<close> is cleaned to \<open>a\<close> followed by a space, and cleaning that gives \<open>a\<close>.
  One pass of \<open>re.sub\<close> can also leave a magic word behind: \<open>___X___X__\<close> is cleaned to
  \<open>__X__\<close>, and cleaning that gives the empty text.
\<close>

theorem reclean_counterexample:
  "parse_and_clean_wikicode no_aliases text_parser ''a __NOTOC__'' (parse text_parser) ''en''
     = Inr ''a '' \<and>
   parse_and_clean_wikicode no_aliases text_parser ''a '' (parse text_parser) ''en'' = Inr ''a'' \<and>
   parse_and_clean_wikicode no_aliases text_parser ''___X___X__'' (parse text_parser) ''en''
     = Inr ''__X__'' \<and>
   parse_and_clean_wikicode no_aliases text_parser ''__X__'' (parse text_parser) ''en'' = Inr []"
  by (simp add: cleaner_defs)

text \<open>
  C8, amended. When the cleaned text of an article parses as plain text, has no white
  space at its ends, no three newlines in a row and no magic word left in it, cleaning it
  again (same language) yields the same text.
\<close>

theorem reclean_plain_text:
  "parse_and_clean_wikicode tables library raw_content parser language = Inr cleaned \<and>
   parser cleaned = text_nodes cleaned \<and>
   py_strip cleaned = cleaned \<and> \<not> has_blank_run cleaned \<and> \<not> has_magic cleaned
   \<longrightarrow> parse_and_clean_wikicode tables library cleaned parser language = Inr cleaned"
proof
  assume h: "parse_and_clean_wikicode tables library raw_content parser language = Inr cleaned \<and>
   parser cleaned = text_nodes cleaned \<and>
   py_strip cleaned = cleaned \<and> \<not> has_blank_run cleaned \<and> \<not> has_magic cleaned"
  show "parse_and_clean_wikicode tables library cleaned parser language = Inr cleaned"
  proof (cases "cleaned = []")
    case True
    with h show ?thesis
      by (simp add: parse_and_clean_wikicode_def text_nodes_def clean_wikicode_def
          section_text_empty then_do_def)
  next
    case False
    with h have "parser cleaned = Inr [Text cleaned]" by (simp add: text_nodes_def)
    moreover have "section_text tables library language [Text cleaned] = Inr cleaned"
      using h by (intro section_text_plain) simp_all
    ultimately show ?thesis
      by (simp add: parse_and_clean_wikicode_def clean_wikicode_def is_heading_def then_do_def)
  qed
qed

theorem reclean_plain_text_witness:
  "parse_and_clean_wikicode no_aliases text_parser ''Hello __NOTOC__world'' (parse text_parser) ''en''
     = Inr ''Hello world'' \<and>
   parse text_parser ''Hello world'' = text_nodes ''Hello world'' \<and>
   py_strip ''Hello world'' = ''Hello world'' \<and>
   \<not> has_blank_run ''Hello world'' \<and> \<not> has_magic ''Hello world'' \<and>
   parse_and_clean_wikicode no_aliases text_parser ''Hello world'' (parse text_parser) ''en''
     = Inr ''Hello world''"
proof -
  have a: "parse_and_clean_wikicode no_aliases text_parser ''Hello __NOTOC__world''
      (parse text_parser) ''en'' = Inr ''Hello world''"
    by (simp add: cleaner_defs)
  have p: "parse text_parser ''Hello world'' = text_nodes ''Hello world''"
    by (simp add: parse_text_parser)
  have b: "py_strip ''Hello world'' = ''Hello world''"
    by (simp add: py_strip_def isspace_def)
  have c: "\<not> has_blank_run ''Hello world''" by simp
  have d: "\<not> has_magic ''Hello world''" by (simp add: match_magic_def)
  from reclean_plain_text
    [of no_aliases text_parser "''Hello __NOTOC__world''" "parse text_parser" "''en''"
        "''Hello world''"] a p b c d
  show ?thesis by simp
qed

subsection \<open>Category links\<close>

lemma re_prefix_match_None:
  "re_prefix_match prefixes s = None \<longleftrightarrow>
   (\<forall>p \<in> set prefixes. map lower (take (Suc (length p)) s) \<noteq> map lower (p @ '':''))"
  by (auto simp: re_prefix_match_def find_None_iff)

lemma re_prefix_match_Some:
  "re_prefix_match prefixes s = Some p \<Longrightarrow>
   p \<in> set prefixes \<and> map lower (take (Suc (length p)) s) = map lower (p @ '':'')"
  unfolding re_prefix_match_def find_Some_iff by (metis nth_mem)

lemma re_prefix_sub_split:
  "\<exists>stripped. s = stripped @ re_prefix_sub prefixes s \<and>
     (stripped = [] \<or> (\<exists>p \<in> set prefixes. map lower stripped = map lower (p @ '':''))) \<and>
     (stripped = [] \<longrightarrow>
        (\<forall>p \<in> set prefixes. map lower (take (Suc (length p)) s) \<noteq> map lower (p @ '':'')))"
proof (cases "re_prefix_match prefixes s")
  case None
  then have "s = [] @ re_prefix_sub prefixes s" by (simp add: re_prefix_sub_def)
  moreover from None
  have "\<forall>p \<in> set prefixes. map lower (take (Suc (length p)) s) \<noteq> map lower (p @ '':'')"
    by (simp add: re_prefix_match_None)
  ultimately show ?thesis by blast
next
  case (Some p)
  let ?stripped = "take (Suc (length p)) s"
  from re_prefix_match_Some [OF Some]
  have p: "p \<in> set prefixes" and m: "map lower ?stripped = map lower (p @ '':'')" by simp_all
  from m have "length (map lower ?stripped) = length (map lower (p @ '':''))" by (rule arg_cong)
  then have ne: "?stripped \<noteq> []" by auto
  have "s = ?stripped @ re_prefix_sub prefixes s" using Some by (simp add: re_prefix_sub_def)
  with p m ne show ?thesis by blast
qed

lemma re_prefix_sub_later:
  assumes "\<forall>k. 0 < k \<longrightarrow>
     (\<forall>p \<in> set prefixes. map lower (take (Suc (length p)) (drop k s)) \<noteq> map lower (p @ '':''))"
  shows "\<forall>p \<in> set prefixes.
     map lower (take (Suc (length p)) (drop k (re_prefix_sub prefixes s))) \<noteq> map lower (p @ '':'')"
proof (cases "re_prefix_match prefixes s")
  case None
  then have r: "re_prefix_sub prefixes s = s" by (simp add: re_prefix_sub_def)
  show ?thesis
  proof (cases k)
    case 0
    with None r show ?thesis by (simp add: re_prefix_match_None)
  next
    case (Suc j)
    with assms r show ?thesis by simp
  qed
next
  case (Some q)
  then have "drop k (re_prefix_sub prefixes s) = drop (k + Suc (length q)) s"
    by (simp add: re_prefix_sub_def)
  moreover have "0 < k + Suc (length q)" by simp
  ultimately show ?thesis using assms by metis
qed

text \<open>
  C2 as stated fails: the pattern is anchored at the start of the display text, so a
  category prefix further inside it stays.
\<close>

theorem category_prefix_counterexample:
  "is_category no_aliases ''en''
     (Wikilink [Text ''Category:Animals''] (Some [Text ''see Category:Animals''])) \<and>
   clean_wikilink no_aliases text_parser ''en''
     (Wikilink [Text ''Category:Animals''] (Some [Text ''see Category:Animals'']))
     = Inr (Wikilink [Text ''Category:Animals''] (Some [Text ''see Category:Animals''])) \<and>
   contains_ci ''Category:''
     (rewritten_text no_aliases ''en''
        (Wikilink [Text ''Category:Animals''] (Some [Text ''see Category:Animals''])))"
  by (simp add: cleaner_defs contains_ci_def)

text \<open>
  C2, amended. For every category link, \<open>clean_wikilink\<close> returns exactly when the
  library parses the rewritten text, and the text of the node is then the nodes the
  library has read, whose markup is the rewritten text; the first loop, at a category
  link that is not a media link, stores these nodes and goes on through them. The
  rewritten text is the display text without what the pattern matches at its start:
  nothing, when the display text starts with no category prefix and colon, and else a
  category prefix and a colon, compared without case. When the display text has no
  category prefix with a colon after its first character, the rewritten text has none at
  all.
\<close>

theorem clean_wikilink_leading_prefix:
  "is_category tables language obj \<longrightarrow>
     (\<exists>title shown. obj = Wikilink title shown \<and>
        (\<forall>obj'. clean_wikilink tables library language obj = Inr obj' \<longleftrightarrow>
           (\<exists>nodes. parse library (rewritten_text tables language obj) = Inr nodes \<and>
              obj' = Wikilink title (Some nodes))) \<and>
        (\<forall>nodes. parse library (rewritten_text tables language obj) = Inr nodes \<longrightarrow>
           str_code nodes = rewritten_text tables language obj \<and>
           (\<not> rm_wikilink tables language obj \<longrightarrow>
              (\<forall>obj'. visit_wikilinks tables library language obj = Inr obj' \<longrightarrow>
                 (\<exists>title' nodes'. obj' = Wikilink title' (Some nodes') \<and>
                    live_iter_try (rm_wikilink tables language)
                      (visit_wikilinks tables library language) nodes = Inr nodes'))))) \<and>
     (\<exists>stripped. display_text obj = stripped @ rewritten_text tables language obj \<and>
        (stripped = [] \<or>
         (\<exists>p \<in> set (cat_prefixes tables language). map lower stripped = map lower (p @ '':''))) \<and>
        (stripped = [] \<longrightarrow>
           (\<forall>p \<in> set (cat_prefixes tables language).
              map lower (take (Suc (length p)) (display_text obj)) \<noteq> map lower (p @ '':'')))) \<and>
     ((\<forall>k. 0 < k \<longrightarrow>
         (\<forall>p \<in> set (cat_prefixes tables language).
            map lower (take (Suc (length p)) (drop k (display_text obj)))
              \<noteq> map lower (p @ '':''))) \<longrightarrow>
      (\<forall>k. \<forall>p \<in> set (cat_prefixes tables language).
         map lower (take (Suc (length p)) (drop k (rewritten_text tables language obj)))
           \<noteq> map lower (p @ '':'')))"
proof
  assume c: "is_category tables language obj"
  then obtain title shown where obj: "obj = Wikilink title shown"
    by (cases obj) (simp_all add: is_category_def)
  let ?cats = "cat_prefixes tables language"
  let ?d = "display_text obj"
  let ?r = "rewritten_text tables language obj"
  have 1: "\<forall>obj'. clean_wikilink tables library language obj = Inr obj' \<longleftrightarrow>
           (\<exists>nodes. parse library ?r = Inr nodes \<and> obj' = Wikilink title (Some nodes))"
    using obj by (auto simp: clean_wikilink_def split: sum.splits)
  have 2: "\<forall>nodes. parse library ?r = Inr nodes \<longrightarrow>
           str_code nodes = ?r \<and>
           (\<not> rm_wikilink tables language obj \<longrightarrow>
              (\<forall>obj'. visit_wikilinks tables library language obj = Inr obj' \<longrightarrow>
                 (\<exists>title' nodes'. obj' = Wikilink title' (Some nodes') \<and>
                    live_iter_try (rm_wikilink tables language)
                      (visit_wikilinks tables library language) nodes = Inr nodes')))"
  proof (intro allI impI conjI)
    fix nodes
    assume p: "parse library ?r = Inr nodes"
    then show "str_code nodes = ?r" by (rule parse_roundtrip)
    fix obj'
    assume "\<not> rm_wikilink tables language obj"
      and "visit_wikilinks tables library language obj = Inr obj'"
    with obj c p show "\<exists>title' nodes'. obj' = Wikilink title' (Some nodes') \<and>
        live_iter_try (rm_wikilink tables language)
          (visit_wikilinks tables library language) nodes = Inr nodes'"
      by (auto simp: try_replace_obj_def clean_wikilink_def then_do_def try_option_def
          split: sum.splits)
  qed
  have 3: "\<exists>stripped. ?d = stripped @ ?r \<and>
        (stripped = [] \<or> (\<exists>p \<in> set ?cats. map lower stripped = map lower (p @ '':''))) \<and>
        (stripped = [] \<longrightarrow>
           (\<forall>p \<in> set ?cats. map lower (take (Suc (length p)) ?d) \<noteq> map lower (p @ '':'')))"
    unfolding rewritten_text_def by (rule re_prefix_sub_split)
  have 4: "(\<forall>k. 0 < k \<longrightarrow>
         (\<forall>p \<in> set ?cats. map lower (take (Suc (length p)) (drop k ?d)) \<noteq> map lower (p @ '':''))) \<longrightarrow>
      (\<forall>k. \<forall>p \<in> set ?cats. map lower (take (Suc (length p)) (drop k ?r)) \<noteq> map lower (p @ '':''))"
    unfolding rewritten_text_def using re_prefix_sub_later [of ?cats ?d] by blast
  from obj 1 2 have 12: "\<exists>title shown. obj = Wikilink title shown \<and>
        (\<forall>obj'. clean_wikilink tables library language obj = Inr obj' \<longleftrightarrow>
           (\<exists>nodes. parse library ?r = Inr nodes \<and> obj' = Wikilink title (Some nodes))) \<and>
        (\<forall>nodes. parse library ?r = Inr nodes \<longrightarrow>
           str_code nodes = ?r \<and>
           (\<not> rm_wikilink tables language obj \<longrightarrow>
              (\<forall>obj'. visit_wikilinks tables library language obj = Inr obj' \<longrightarrow>
                 (\<exists>title' nodes'. obj' = Wikilink title' (Some nodes') \<and>
                    live_iter_try (rm_wikilink tables language)
                      (visit_wikilinks tables library language) nodes = Inr nodes'))))"
    by blast
  from 12 3 4 show "(\<exists>title shown. obj = Wikilink title shown \<and>
        (\<forall>obj'. clean_wikilink tables library language obj = Inr obj' \<longleftrightarrow>
           (\<exists>nodes. parse library (rewritten_text tables language obj) = Inr nodes \<and>
              obj' = Wikilink title (Some nodes))) \<and>
        (\<forall>nodes. parse library (rewritten_text tables language obj) = Inr nodes \<longrightarrow>
           str_code nodes = rewritten_text tables language obj \<and>
           (\<not> rm_wikilink tables language obj \<longrightarrow>
              (\<forall>obj'. visit_wikilinks tables library language obj = Inr obj' \<longrightarrow>
                 (\<exists>title' nodes'. obj' = Wikilink title' (Some nodes') \<and>
                    live_iter_try (rm_wikilink tables language)
                      (visit_wikilinks tables library language) nodes = Inr nodes'))))) \<and>
     (\<exists>stripped. display_text obj = stripped @ rewritten_text tables language obj \<and>
        (stripped = [] \<or>
         (\<exists>p \<in> set (cat_prefixes tables language). map lower stripped = map lower (p @ '':''))) \<and>
        (stripped = [] \<longrightarrow>
           (\<forall>p \<in> set (cat_prefixes tables language).
              map lower (take (Suc (length p)) (display_text obj)) \<noteq> map lower (p @ '':'')))) \<and>
     ((\<forall>k. 0 < k \<longrightarrow>
         (\<forall>p \<in> set (cat_prefixes tables language).
            map lower (take (Suc (length p)) (drop k (display_text obj)))
              \<noteq> map lower (p @ '':''))) \<longrightarrow>
      (\<forall>k. \<forall>p \<in> set (cat_prefixes tables language).
         map lower (take (Suc (length p)) (drop k (rewritten_text tables language obj)))
           \<noteq> map lower (p @ '':'')))"
    by (intro conjI)
qed

theorem clean_wikilink_leading_prefix_witness:
  "is_category example_aliases ''de'' (Wikilink [Text ''kategorie:Tiere''] None) \<and>
   display_text (Wikilink [Text ''kategorie:Tiere''] None) = ''kategorie:Tiere'' \<and>
   rewritten_text example_aliases ''de'' (Wikilink [Text ''kategorie:Tiere''] None) = ''Tiere'' \<and>
   parse text_parser ''Tiere'' = Inr [Text ''Tiere''] \<and>
   clean_wikilink example_aliases text_parser ''de'' (Wikilink [Text ''kategorie:Tiere''] None)
     = Inr (Wikilink [Text ''kategorie:Tiere''] (Some [Text ''Tiere'']))"
proof -
  let ?obj = "Wikilink [Text ''kategorie:Tiere''] None"
  have c: "is_category example_aliases ''de'' ?obj"
    by (simp add: is_category_def cat_prefixes_def example_aliases_def example_words
        re_prefix_match_def) code_simp
  have d: "display_text ?obj = ''kategorie:Tiere''"
    by (simp add: display_text_def strip_newlines_def collapse.simps)
  have r: "rewritten_text example_aliases ''de'' ?obj = ''Tiere''"
    by (simp add: rewritten_text_def d cat_prefixes_def example_aliases_def example_words
        re_prefix_sub_def re_prefix_match_def) code_simp
  have p: "parse text_parser ''Tiere'' = Inr [Text ''Tiere'']"
    by (simp add: parse_text_parser text_nodes_def)
  from clean_wikilink_leading_prefix [of example_aliases "''de''" ?obj text_parser] c
  have "\<exists>title shown. ?obj = Wikilink title shown \<and>
        (\<forall>obj'. clean_wikilink example_aliases text_parser ''de'' ?obj = Inr obj' \<longleftrightarrow>
           (\<exists>nodes. parse text_parser (rewritten_text example_aliases ''de'' ?obj) = Inr nodes \<and>
              obj' = Wikilink title (Some nodes)))"
    by blast
  with r p have "clean_wikilink example_aliases text_parser ''de'' ?obj
      = Inr (Wikilink [Text ''kategorie:Tiere''] (Some [Text ''Tiere'']))"
    by auto
  with c d r p show ?thesis by simp
qed

text \<open>
  The text that \<open>clean_wikilink\<close> stores is parsed, and the loop goes on in it: the
  display text of \<open>[[Category:X|<nowiki>[[File:a.jpg]]</nowiki>]]\<close> is the markup of a
  media link, which the loop then removes.
\<close>

lemma reparsed_media_link_removed:
  "clean_wikilink no_aliases nested_parser ''en''
     (Wikilink [Text ''Category:X'']
        (Some [Tag ''nowiki'' True ''<nowiki>'' [Text ''[[File:a.jpg]]''] ''</nowiki>'']))
     = Inr (Wikilink [Text ''Category:X''] (Some [Wikilink [Text ''File:a.jpg''] None])) \<and>
   clean_wikicode no_aliases nested_parser ''en''
     [Wikilink [Text ''Category:X'']
        (Some [Tag ''nowiki'' True ''<nowiki>'' [Text ''[[File:a.jpg]]''] ''</nowiki>''])]
     = Inr []"
  by (simp add: cleaner_defs parse_nested_parser nested_nodes_def)

subsection \<open>Media links\<close>

text \<open>
  C3 does not hold of the program. In \<open><b>[[File:a.jpg]][[File:b.jpg]]</b>\<close> the
  two media links are the contents of a tag. Removing the first while the generator
  iterates over the contents makes the generator pass over the second, which stays in
  the section and is printed by \<open>strip_code\<close>. The same two links as nodes of the section
  itself are both removed. A media link in the display text of a category link,
  \<open>[[Category:Pets|[[File:a.jpg]]]]\<close>, is never reached either: the category link is
  rewritten first, to a display text that holds the title of the media link.
\<close>

theorem media_link_after_removed_sibling:
  "rm_wikilink no_aliases ''en'' (Wikilink [Text ''File:b.jpg''] None) \<and>
   clean_wikicode no_aliases text_parser ''en''
     [Tag ''b'' True ''<b>''
        [Wikilink [Text ''File:a.jpg''] None, Wikilink [Text ''File:b.jpg''] None] ''</b>'']
     = Inr ''File:b.jpg'' \<and>
   clean_wikicode no_aliases text_parser ''en''
     [Wikilink [Text ''File:a.jpg''] None, Wikilink [Text ''File:b.jpg''] None] = Inr [] \<and>
   clean_wikicode no_aliases text_parser ''en''
     [Wikilink [Text ''Category:Pets''] (Some [Wikilink [Text ''File:a.jpg''] None])]
     = Inr ''File:a.jpg''"
  by (simp add: cleaner_defs)

end
